theory Spec2Isabelle
  imports Complex_Main "HOL-Library.Multiset"
begin

section \<open>Structured application errors (app/errors.py)\<close>

text \<open>
  Every subclass of \<open>AppError\<close> carries a message and a class-level code string.
  The taxonomy names used in prose (validation, network, parse, blocked, timeout)
  are the prefixes of these code strings.
\<close>

datatype app_error =
    ValidationAppError string
  | NetworkAppError string
  | ParseAppError string
  | BlockedAppError string
  | TimeoutAppError string
  | NotFoundAppError string

fun code :: "app_error \<Rightarrow> string" where
  "code (ValidationAppError m) = ''validation_error''"
| "code (NetworkAppError m) = ''network_error''"
| "code (ParseAppError m) = ''parse_error''"
| "code (BlockedAppError m) = ''blocked_error''"
| "code (TimeoutAppError m) = ''timeout_error''"
| "code (NotFoundAppError m) = ''not_found_error''"

fun message :: "app_error \<Rightarrow> string" where
  "message (ValidationAppError m) = m"
| "message (NetworkAppError m) = m"
| "message (ParseAppError m) = m"
| "message (BlockedAppError m) = m"
| "message (TimeoutAppError m) = m"
| "message (NotFoundAppError m) = m"

definition error_to_payload :: "app_error \<Rightarrow> (string \<times> string) list" where
  "error_to_payload error = [(''code'', code error), (''message'', message error)]"

section \<open>Formatting integers inside messages\<close>

definition digit_char :: "nat \<Rightarrow> char" where
  "digit_char d = ''0123456789'' ! (d mod 10)"

fun str_nat :: "nat \<Rightarrow> string" where
  "str_nat n = (if n < 10 then [digit_char n] else str_nat (n div 10) @ [digit_char (n mod 10)])"

definition str_int :: "int \<Rightarrow> string" where
  "str_int i = (if i < 0 then CHR ''-'' # str_nat (nat (- i)) else str_nat (nat i))"

section \<open>Fetch client (app/scraping/http_client.py)\<close>

text \<open>
  The network is the environment of the client: \<open>client_get url attempt\<close> is what
  \<open>httpx.AsyncClient.get\<close> does on the given attempt of one fetch of \<open>url\<close>. It either
  returns a response (status code and body) or raises a timeout or some other
  request-level transport error. \<open>httpx.TimeoutException\<close> is matched by its own
  handler, which precedes the one for \<open>httpx.RequestError\<close>.
\<close>

record response =
  status_code :: int
  body_text :: string

datatype get_outcome =
    Response int string
  | TimeoutException string
  | RequestError string

text \<open>What the handlers of the retry loop store in \<open>last_error\<close>.\<close>

datatype caught =
    CaughtTimeout string
  | CaughtRequestError string
  | CaughtNetworkAppError app_error

text \<open>Observable effects of one fetch: requests issued (by attempt number) and sleeps.\<close>

datatype io = Get int | Sleep real

datatype attempt_result =
    Returned response
  | Reraised app_error
  | Handled caught

text \<open>
  The body of the \<open>try\<close> statement together with its \<open>except\<close> clauses: a 403 or 429
  raises \<open>BlockedAppError\<close>, which its handler re-raises; 5xx and every other status
  from 400 on raise \<open>NetworkAppError\<close>, which the last handler catches together with
  \<open>httpx.RequestError\<close>; a timeout is caught by the handler before it.
\<close>

fun try_get :: "string \<Rightarrow> get_outcome \<Rightarrow> attempt_result" where
  "try_get url (Response status body) =
     (if status = 403 \<or> status = 429 then
        Reraised (BlockedAppError
          (''Devpost denied access while fetching '' @ url @ '' (status '' @ str_int status @ '')''))
      else if 500 \<le> status \<and> status < 600 then
        Handled (CaughtNetworkAppError (NetworkAppError
          (''Devpost returned '' @ str_int status @ '' for '' @ url)))
      else if status \<ge> 400 then
        Handled (CaughtNetworkAppError (NetworkAppError
          (''Unable to fetch '' @ url @ ''; received '' @ str_int status)))
      else Returned \<lparr>status_code = status, body_text = body\<rparr>)"
| "try_get url (TimeoutException m) = Handled (CaughtTimeout m)"
| "try_get url (RequestError m) = Handled (CaughtRequestError m)"

text \<open>The statements after the \<open>for\<close> loop, which always raise.\<close>

fun after_loop :: "string \<Rightarrow> caught option \<Rightarrow> app_error" where
  "after_loop url (Some (CaughtTimeout m)) =
     TimeoutAppError (''Request timeout while fetching '' @ url)"
| "after_loop url (Some (CaughtNetworkAppError e)) = e"
| "after_loop url (Some (CaughtRequestError m)) =
     NetworkAppError (''Network error while fetching '' @ url @ '': '' @ m)"
| "after_loop url None = NetworkAppError (''Network error while fetching '' @ url)"

text \<open>
  The loop \<open>for attempt in range(1, retry_count + 1)\<close>, as a recursion over the
  attempts still to make. A handled failure on the attempt equal to \<open>retry_count\<close>
  breaks out of the loop; on any other attempt the client sleeps
  \<open>backoff_base_seconds * (2 ** (attempt - 1))\<close> and goes on.
\<close>

fun retry_loop ::
  "(int \<Rightarrow> get_outcome) \<Rightarrow> string \<Rightarrow> int \<Rightarrow> real \<Rightarrow> caught option \<Rightarrow> int list
    \<Rightarrow> io list \<times> (app_error + response)" where
  "retry_loop get url retry_count backoff_base_seconds last_error [] =
     ([], Inl (after_loop url last_error))"
| "retry_loop get url retry_count backoff_base_seconds last_error (attempt # rest) =
     (case try_get url (get attempt) of
        Returned r \<Rightarrow> ([Get attempt], Inr r)
      | Reraised e \<Rightarrow> ([Get attempt], Inl e)
      | Handled exc \<Rightarrow>
          if attempt = retry_count then ([Get attempt], Inl (after_loop url (Some exc)))
          else (case retry_loop get url retry_count backoff_base_seconds (Some exc) rest of
                  (tr, res) \<Rightarrow>
                    (Get attempt # Sleep (backoff_base_seconds * 2 ^ nat (attempt - 1)) # tr, res)))"

text \<open>The fields of \<open>Settings\<close> (app/config.py) that the modelled code reads.\<close>

record Settings =
  request_timeout_seconds :: real
  max_retries :: int
  retry_backoff_base_seconds :: real
  project_request_timeout_seconds :: real
  project_max_retries :: int
  project_retry_backoff_base_seconds :: real
  project_fetch_concurrency :: int
  job_timeout_seconds :: int
  lookup_result_cache_ttl_seconds :: int
  rate_limit_enabled :: bool
  rate_limit_hourly :: int
  rate_limit_daily :: int

text \<open>The defaults declared in the class body.\<close>

definition default_settings :: Settings where
  "default_settings =
     \<lparr>request_timeout_seconds = 20, max_retries = 3, retry_backoff_base_seconds = 6 / 10,
      project_request_timeout_seconds = 8, project_max_retries = 2,
      project_retry_backoff_base_seconds = 1 / 4, project_fetch_concurrency = 6,
      job_timeout_seconds = 300, lookup_result_cache_ttl_seconds = 1800,
      rate_limit_enabled = False, rate_limit_hourly = 3, rate_limit_daily = 10\<rparr>"

record RetryHttpClient =
  settings :: Settings
  client_get :: "string \<Rightarrow> int \<Rightarrow> get_outcome"

text \<open>
  The keyword arguments \<open>max_retries\<close> and \<open>retry_backoff_base_seconds\<close> override the
  process-wide settings when they are not \<open>None\<close>.
\<close>

definition retry_count_for :: "RetryHttpClient \<Rightarrow> int option \<Rightarrow> int" where
  "retry_count_for self max_retries_opt =
     (case max_retries_opt of Some n \<Rightarrow> n | None \<Rightarrow> max_retries (settings self))"

definition backoff_base_for :: "RetryHttpClient \<Rightarrow> real option \<Rightarrow> real" where
  "backoff_base_for self retry_backoff_base_seconds_opt =
     (case retry_backoff_base_seconds_opt of
        Some b \<Rightarrow> b | None \<Rightarrow> retry_backoff_base_seconds (settings self))"

definition fetch_with_retries ::
  "RetryHttpClient \<Rightarrow> string \<Rightarrow> int option \<Rightarrow> real option \<Rightarrow> io list \<times> (app_error + response)" where
  "fetch_with_retries self url max_retries_opt retry_backoff_base_seconds_opt =
     retry_loop (client_get self url) url (retry_count_for self max_retries_opt)
       (backoff_base_for self retry_backoff_base_seconds_opt) None
       [1..retry_count_for self max_retries_opt]"

definition fetch_text :: "RetryHttpClient \<Rightarrow> string \<Rightarrow> io list \<times> (app_error + string)" where
  "fetch_text self url =
     (case fetch_with_retries self url None None of
        (tr, Inl e) \<Rightarrow> (tr, Inl e)
      | (tr, Inr r) \<Rightarrow> (tr, Inr (body_text r)))"

definition fetch_text_with_options ::
  "RetryHttpClient \<Rightarrow> string \<Rightarrow> int option \<Rightarrow> real option \<Rightarrow> io list \<times> (app_error + string)" where
  "fetch_text_with_options self url max_retries_opt retry_backoff_base_seconds_opt =
     (case fetch_with_retries self url max_retries_opt retry_backoff_base_seconds_opt of
        (tr, Inl e) \<Rightarrow> (tr, Inl e)
      | (tr, Inr r) \<Rightarrow> (tr, Inr (body_text r)))"

text \<open>
  JSON values as \<open>response.json()\<close> produces them. The decoder itself belongs to the
  HTTP library and is a parameter: \<open>None\<close> stands for the \<open>ValueError\<close> it raises on a
  body that is not JSON.
\<close>

datatype json =
    JNull
  | JBool bool
  | JNumber int
  | JString string
  | JArray "json list"
  | JObject "(string \<times> json) list"

fun is_dict :: "json \<Rightarrow> bool" where
  "is_dict (JObject kvs) = True"
| "is_dict other = False"

definition fetch_json ::
  "(string \<Rightarrow> json option) \<Rightarrow> RetryHttpClient \<Rightarrow> string \<Rightarrow> io list \<times> (app_error + json)" where
  "fetch_json json_decode self url =
     (case fetch_with_retries self url None None of
        (tr, Inl e) \<Rightarrow> (tr, Inl e)
      | (tr, Inr r) \<Rightarrow>
          (case json_decode (body_text r) of
             None \<Rightarrow> (tr, Inl (NetworkAppError (''Invalid JSON response while fetching '' @ url)))
           | Some payload \<Rightarrow>
               if \<not> is_dict payload
               then (tr, Inl (NetworkAppError (''Unexpected JSON payload while fetching '' @ url)))
               else (tr, Inr payload)))"

text \<open>The requests of a trace, by attempt number.\<close>

fun requests :: "io list \<Rightarrow> int list" where
  "requests [] = []"
| "requests (Get a # tr) = a # requests tr"
| "requests (Sleep d # tr) = requests tr"

text \<open>A server that answers every attempt in the same way.\<close>

definition every_attempt :: "get_outcome \<Rightarrow> string \<Rightarrow> int \<Rightarrow> get_outcome" where
  "every_attempt outcome url attempt = outcome"


text \<open>
  The sleeps the retry policy prescribes for a run of attempts: after every attempt but
  the last one, \<open>backoff_base * 2 ^ (attempt - 1)\<close> seconds.
\<close>

fun backoff_schedule :: "real \<Rightarrow> int list \<Rightarrow> io list" where
  "backoff_schedule b [] = []"
| "backoff_schedule b [a] = [Get a]"
| "backoff_schedule b (a # a' # as) =
     Get a # Sleep (b * 2 ^ nat (a - 1)) # backoff_schedule b (a' # as)"

text \<open>An outcome is retryable when one of the two retrying handlers catches it.\<close>

fun the_caught :: "attempt_result \<Rightarrow> caught option" where
  "the_caught (Handled exc) = Some exc"
| "the_caught (Returned r) = None"
| "the_caught (Reraised e) = None"

definition retryable :: "string \<Rightarrow> get_outcome \<Rightarrow> bool" where
  "retryable url outcome = (the_caught (try_get url outcome) \<noteq> None)"

text \<open>A status from 400 on that is neither 403, 429 nor in the 5xx range.\<close>

definition other_client_error :: "int \<Rightarrow> bool" where
  "other_client_error status =
     (status \<ge> 400 \<and> status \<noteq> 403 \<and> status \<noteq> 429 \<and> \<not> (500 \<le> status \<and> status < 600))"

text \<open>Decoders for bodies that are not JSON, and for a JSON array.\<close>

definition not_json :: "string \<Rightarrow> json option" where
  "not_json body = None"

definition json_array :: "string \<Rightarrow> json option" where
  "json_array body = Some (JArray [])"

text \<open>
  The failure an exhausted budget ends in, read off the outcome of the last attempt: a
  timeout gives the timeout failure; a transport error gives a network failure naming
  it; an error status gives the network failure that was raised for that response.
\<close>

fun exhausted_failure :: "string \<Rightarrow> get_outcome \<Rightarrow> app_error" where
  "exhausted_failure url (TimeoutException m) =
     TimeoutAppError (''Request timeout while fetching '' @ url)"
| "exhausted_failure url (RequestError m) =
     NetworkAppError (''Network error while fetching '' @ url @ '': '' @ m)"
| "exhausted_failure url (Response status body) =
     (if 500 \<le> status \<and> status < 600
      then NetworkAppError (''Devpost returned '' @ str_int status @ '' for '' @ url)
      else NetworkAppError (''Unable to fetch '' @ url @ ''; received '' @ str_int status))"

text \<open>A server whose answers to the successive attempts are listed.\<close>

definition scripted :: "get_outcome list \<Rightarrow> string \<Rightarrow> int \<Rightarrow> get_outcome" where
  "scripted outcomes url attempt =
     (if 1 \<le> attempt \<and> nat attempt \<le> length outcomes then outcomes ! (nat attempt - 1)
      else RequestError ''connection refused'')"

section \<open>Exceptions\<close>

text \<open>
  Besides the structured errors, the code can see exceptions it does not catalogue:
  \<open>ValueError\<close> from the URL parser, \<open>asyncio.TimeoutError\<close> from the deadline of a job,
  and anything else.
\<close>

datatype exn =
    AppError app_error
  | ValueError string
  | AsyncioTimeoutError
  | OtherException string

section \<open>String operations of the Python library\<close>

text \<open>
  Strings are lists of characters; a character stands for the code point of the same
  number, below 256. \<open>str.strip()\<close> without arguments removes the characters for which
  \<open>str.isspace\<close> holds; below 256 these are tab, line feed, vertical tab, form feed,
  carriage return, the four separators \<open>0x1C\<close> to \<open>0x1F\<close>, the space, the next-line
  control \<open>0x85\<close> and the no-break space \<open>0xA0\<close>. The parser of \<open>urllib\<close> is modelled
  for ASCII text, which \<open>str.isascii\<close> recognises.
\<close>

definition py_isspace :: "char \<Rightarrow> bool" where
  "py_isspace c = (c \<in> set [CHR 0x09, CHR 0x0A, CHR 0x0B, CHR 0x0C, CHR 0x0D,
                             CHR 0x1C, CHR 0x1D, CHR 0x1E, CHR 0x1F, CHR 0x20,
                             CHR 0x85, CHR 0xA0])"


definition lstrip :: "(char \<Rightarrow> bool) \<Rightarrow> string \<Rightarrow> string" where
  "lstrip p s = dropWhile p s"

definition rstrip :: "(char \<Rightarrow> bool) \<Rightarrow> string \<Rightarrow> string" where
  "rstrip p s = rev (dropWhile p (rev s))"

definition strip :: "string \<Rightarrow> string" where
  "strip s = rstrip py_isspace (lstrip py_isspace s)"

definition startswith :: "string \<Rightarrow> string \<Rightarrow> bool" where
  "startswith s pre = (take (length pre) s = pre)"

definition endswith :: "string \<Rightarrow> string \<Rightarrow> bool" where
  "endswith s suf = (drop (length s - length suf) s = suf)"

definition ascii_upper :: "char \<Rightarrow> bool" where
  "ascii_upper c = (c \<in> set ''ABCDEFGHIJKLMNOPQRSTUVWXYZ'')"

definition ascii_lower :: "char \<Rightarrow> bool" where
  "ascii_lower c = (c \<in> set ''abcdefghijklmnopqrstuvwxyz'')"

definition ascii_digit :: "char \<Rightarrow> bool" where
  "ascii_digit c = (c \<in> set ''0123456789'')"

definition lower_char :: "char \<Rightarrow> char" where
  "lower_char c = (if ascii_upper c then char_of (of_char c + (32::nat)) else c)"

definition lower :: "string \<Rightarrow> string" where
  "lower s = map lower_char s"

text \<open>\<open>s.split(sep, 1)\<close> for a separator that occurs in \<open>s\<close>: the text before and after its first occurrence.\<close>

definition before :: "char \<Rightarrow> string \<Rightarrow> string" where
  "before sep s = takeWhile (\<lambda>c. c \<noteq> sep) s"

definition after :: "char \<Rightarrow> string \<Rightarrow> string" where
  "after sep s = tl (dropWhile (\<lambda>c. c \<noteq> sep) s)"

section \<open>\<open>urllib.parse\<close> (CPython 3.11), for ASCII text\<close>

record ParseResult =
  scheme :: string
  netloc :: string
  path :: string
  params :: string
  query :: string
  fragment :: string

definition scheme_chars :: "char \<Rightarrow> bool" where
  "scheme_chars c = (ascii_lower c \<or> ascii_upper c \<or> ascii_digit c \<or> c \<in> set ''+-.'')"

definition uses_params :: "string list" where
  "uses_params = ['''', ''ftp'', ''hdl'', ''prospero'', ''http'', ''imap'', ''https'', ''shttp'',
     ''rtsp'', ''rtsps'', ''rtspu'', ''sip'', ''sips'', ''mms'', ''sftp'', ''tel'']"

definition uses_netloc :: "string list" where
  "uses_netloc = ['''', ''ftp'', ''http'', ''gopher'', ''nntp'', ''telnet'', ''imap'', ''wais'',
     ''file'', ''mms'', ''https'', ''shttp'', ''snews'', ''prospero'', ''rtsp'', ''rtsps'', ''rtspu'',
     ''rsync'', ''svn'', ''svn+ssh'', ''sftp'', ''nfs'', ''git'', ''git+ssh'', ''ws'', ''wss'']"

text \<open>\<open>_WHATWG_C0_CONTROL_OR_SPACE\<close> and \<open>_UNSAFE_URL_BYTES_TO_REMOVE\<close>.\<close>

definition c0_control_or_space :: "char \<Rightarrow> bool" where
  "c0_control_or_space c = ((of_char c :: nat) \<le> 32)"

definition unsafe_url_byte :: "char \<Rightarrow> bool" where
  "unsafe_url_byte c = (c \<in> set [CHR 0x09, CHR 0x0D, CHR 0x0A])"

definition netloc_delim :: "char \<Rightarrow> bool" where
  "netloc_delim c = (c \<in> set ''/?#'')"

text \<open>\<open>_splitnetloc(url, 2)\<close>: the text after the two slashes, cut at the first of \<open>/ ? #\<close>.\<close>

definition splitnetloc :: "string \<Rightarrow> string \<times> string" where
  "splitnetloc url =
     (takeWhile (\<lambda>c. \<not> netloc_delim c) (drop 2 url),
      dropWhile (\<lambda>c. \<not> netloc_delim c) (drop 2 url))"

text \<open>
  \<open>urlsplit\<close>. A bracket without its partner in the network location raises
  \<open>ValueError\<close>. With both brackets present the host between them is validated as an
  IP literal by \<open>_check_bracketed_host\<close>, which relies on the \<open>ipaddress\<close> module; that
  validation is the parameter \<open>bracketed_host_ok\<close>, applied to the network location.
  \<open>_checknetloc\<close> returns at once for ASCII text.
\<close>

definition urlsplit ::
  "(string \<Rightarrow> bool) \<Rightarrow> string \<Rightarrow> exn + (string \<times> string \<times> string \<times> string \<times> string)" where
  "urlsplit bracketed_host_ok url0 =
     (let url1 = lstrip c0_control_or_space url0;
          url2 = filter (\<lambda>c. \<not> unsafe_url_byte c) url1;
          i = length (before CHR '':'' url2);
          has_scheme = (CHR '':'' \<in> set url2 \<and> i > 0
                         \<and> (ascii_lower (hd url2) \<or> ascii_upper (hd url2))
                         \<and> list_all scheme_chars (take i url2));
          sch = (if has_scheme then lower (take i url2) else []);
          url3 = (if has_scheme then drop (i + 1) url2 else url2);
          has_netloc = (take 2 url3 = ''//'');
          loc = (if has_netloc then fst (splitnetloc url3) else []);
          url4 = (if has_netloc then snd (splitnetloc url3) else url3)
      in if has_netloc \<and> ((CHR ''['' \<in> set loc \<and> CHR '']'' \<notin> set loc)
                           \<or> (CHR '']'' \<in> set loc \<and> CHR ''['' \<notin> set loc))
         then Inl (ValueError ''Invalid IPv6 URL'')
         else if has_netloc \<and> CHR ''['' \<in> set loc \<and> CHR '']'' \<in> set loc
                 \<and> \<not> bracketed_host_ok loc
         then Inl (ValueError ''invalid bracketed host'')
         else
           (let frag = (if CHR ''#'' \<in> set url4 then after CHR ''#'' url4 else []);
                url5 = (if CHR ''#'' \<in> set url4 then before CHR ''#'' url4 else url4);
                qry = (if CHR ''?'' \<in> set url5 then after CHR ''?'' url5 else []);
                url6 = (if CHR ''?'' \<in> set url5 then before CHR ''?'' url5 else url5)
            in Inr (sch, loc, url6, qry, frag)))"

text \<open>
  \<open>_splitparams\<close>, called when the path contains a semicolon: the parameters are what
  follows the first semicolon of the last path segment, if it has one.
\<close>

definition splitparams :: "string \<Rightarrow> string \<times> string" where
  "splitparams url =
     (let last_segment = rev (takeWhile (\<lambda>c. c \<noteq> CHR ''/'') (rev url));
          directory = rev (dropWhile (\<lambda>c. c \<noteq> CHR ''/'') (rev url))
      in if CHR '';'' \<in> set last_segment
         then (directory @ before CHR '';'' last_segment, after CHR '';'' last_segment)
         else (url, []))"

definition urlparse :: "(string \<Rightarrow> bool) \<Rightarrow> string \<Rightarrow> exn + ParseResult" where
  "urlparse bracketed_host_ok url =
     (case urlsplit bracketed_host_ok url of
        Inl e \<Rightarrow> Inl e
      | Inr (sch, loc, url', qry, frag) \<Rightarrow>
          (if sch \<in> set uses_params \<and> CHR '';'' \<in> set url'
           then Inr \<lparr>scheme = sch, netloc = loc, path = fst (splitparams url'),
                     params = snd (splitparams url'), query = qry, fragment = frag\<rparr>
           else Inr \<lparr>scheme = sch, netloc = loc, path = url', params = [],
                     query = qry, fragment = frag\<rparr>))"

definition urlunsplit :: "string \<Rightarrow> string \<Rightarrow> string \<Rightarrow> string \<Rightarrow> string \<Rightarrow> string" where
  "urlunsplit sch loc url qry frag =
     (let url1 =
            (if loc \<noteq> [] \<or> (sch \<noteq> [] \<and> sch \<in> set uses_netloc) \<or> take 2 url = ''//''
             then ''//'' @ loc @ (if url \<noteq> [] \<and> take 1 url \<noteq> ''/'' then CHR ''/'' # url else url)
             else url);
          url2 = (if sch \<noteq> [] then sch @ '':'' @ url1 else url1);
          url3 = (if qry \<noteq> [] then url2 @ ''?'' @ qry else url2)
      in if frag \<noteq> [] then url3 @ ''#'' @ frag else url3)"

definition urlunparse :: "ParseResult \<Rightarrow> string" where
  "urlunparse p =
     urlunsplit (scheme p) (netloc p)
       (if params p \<noteq> [] then path p @ '';'' @ params p else path p) (query p) (fragment p)"

section \<open>Target normalization (app/scraping/url\_utils.py)\<close>

definition normalize_hackathon_url :: "(string \<Rightarrow> bool) \<Rightarrow> string \<Rightarrow> exn + string" where
  "normalize_hackathon_url bracketed_host_ok raw_url =
     (let candidate = strip raw_url in
      if candidate = [] then Inl (AppError (ValidationAppError ''Hackathon URL is required''))
      else
        (let candidate' =
               (if \<not> (startswith candidate ''http://'' \<or> startswith candidate ''https://'')
                then ''https://'' @ candidate else candidate)
         in case urlparse bracketed_host_ok candidate' of
              Inl e \<Rightarrow> Inl e
            | Inr parsed \<Rightarrow>
                if netloc parsed = [] then Inl (AppError (ValidationAppError ''Invalid hackathon URL''))
                else if \<not> endswith (lower (netloc parsed)) ''devpost.com''
                then Inl (AppError (ValidationAppError ''Only Devpost URLs are allowed''))
                else
                  (let cleaned_path =
                         (if path parsed = [] \<or> path parsed = ''/'' then []
                          else rstrip (\<lambda>c. c = CHR ''/'') (path parsed))
                   in Inr (urlunparse (parsed\<lparr>path := cleaned_path, params := [],
                                               query := [], fragment := []\<rparr>)))))"

text \<open>A validation of bracketed hosts that accepts every network location.\<close>

definition any_bracketed_host :: "string \<Rightarrow> bool" where
  "any_bracketed_host host = True"








definition no_space :: "string \<Rightarrow> bool" where
  "no_space s = list_all (\<lambda>c. \<not> py_isspace c) s"



section \<open>Crawl engine (app/scraping/service.py)\<close>

subsection \<open>Data of the page parser (app/scraping/parser.py)\<close>

record WinnerCandidate =
  project_title :: string
  project_url :: string
  software_id :: "string option"
  preview_image_url :: "string option"

record GalleryParseResult =
  all_entries :: "WinnerCandidate list"
  winner_entries :: "WinnerCandidate list"
  scanned_projects :: nat
  next_page_url :: "string option"

record prize =
  hackathon_name :: string
  hackathon_url :: string
  prize_name :: string

text \<open>The dictionary that \<open>parse_project_page\<close> returns.\<close>

record project =
  p_project_title :: string
  p_project_url :: string
  tagline :: "string option"
  p_preview_image_url :: "string option"
  prizes :: "prize list"
  team_members :: "(string \<times> string option) list"
  built_with :: "(string \<times> string option) list"
  external_links :: "(string \<times> string) list"
  description_sections :: "(string \<times> string) list"

text \<open>
  The parser functions extract their results from HTML with an external library; the
  crawl engine only consumes them, so they are parameters here. \<open>parse_project_page\<close>
  raises \<open>ParseAppError\<close> when the page has no title.
\<close>

record page_parser =
  parse_hackathon_name :: "string \<Rightarrow> string"
  winners_are_announced :: "string \<Rightarrow> bool"
  resolve_gallery_url :: "string \<Rightarrow> string \<Rightarrow> string"
  parse_gallery_page :: "string \<Rightarrow> string \<Rightarrow> GalleryParseResult"
  parse_project_page :: "string \<Rightarrow> string \<Rightarrow> string \<Rightarrow> app_error + project"

subsection \<open>Progress events\<close>

text \<open>One constructor for each payload that \<open>scrape_hackathon\<close> passes to the progress callback.\<close>

datatype event =
    WinnerProjectFound string string "string option" "string option" "string option"
  | GalleryPageScanned string nat nat nat "string option"
  | WinnerProjectScraped nat nat string string nat project
  | WinnerDetectionFallback string nat
  | WinnersNotAnnounced string

fun event_type :: "event \<Rightarrow> string" where
  "event_type (WinnerProjectFound title url sid source preview) = ''winner_project_found''"
| "event_type (GalleryPageScanned url page_number scanned found nxt) = ''gallery_page_scanned''"
| "event_type (WinnerProjectScraped idx tot title url prize_count p) = ''winner_project_scraped''"
| "event_type (WinnerDetectionFallback reason n) = ''winner_detection_fallback''"
| "event_type (WinnersNotAnnounced m) = ''winners_not_announced''"

subsection \<open>The scraper and its world\<close>

text \<open>
  A deep-fetch task is the candidate it was created for and its
  \<open>requires_prize_confirmation\<close> flag.
\<close>

type_synonym task = "WinnerCandidate \<times> bool"

text \<open>
  The scraper holds the HTTP client (whose settings it shares) and uses the parser.
  The remaining fields are the world it runs in: the validation of bracketed hosts
  used by URL parsing, the clock, and the timing of the concurrent deep fetches.
  \<open>done_at k\<close> lists the tasks that have finished when \<open>drain_completed_scrapes\<close> is
  called for the \<open>k\<close>-th time, in the order in which the set of finished tasks is
  iterated; both depend on the network and on the event loop.
\<close>

record DevpostScraper =
  http_client :: RetryHttpClient
  parser :: page_parser
  bracketed_host_ok :: "string \<Rightarrow> bool"
  utcnow_iso :: string
  done_at :: "nat \<Rightarrow> task list"

text \<open>The local variables of \<open>scrape_hackathon\<close> that its closures share, together with
  the two effects it has on the outside: the progress events it emits and the tasks
  it creates with \<open>asyncio.create_task\<close>, both in order.\<close>

record crawl_state =
  all_candidates :: "WinnerCandidate list"
  scanned_pages :: nat
  scanned_projects_total :: nat
  winners :: "project list"
  visited_pages :: "string set"
  found_gallery_winners :: bool
  pending_scrape_tasks :: "task list"
  scheduled_project_urls :: "string set"
  total_candidates_scheduled :: nat
  drains :: nat
  events :: "event list"
  created_tasks :: "task list"

definition initial_state :: crawl_state where
  "initial_state =
     \<lparr>all_candidates = [], scanned_pages = 0, scanned_projects_total = 0, winners = [],
      visited_pages = {}, found_gallery_winners = False, pending_scrape_tasks = [],
      scheduled_project_urls = {}, total_candidates_scheduled = 0, drains = 0,
      events = [], created_tasks = []\<rparr>"

definition progress_callback :: "event \<Rightarrow> crawl_state \<Rightarrow> crawl_state" where
  "progress_callback e st = st\<lparr>events := events st @ [e]\<rparr>"

subsection \<open>Deep fetch of one candidate\<close>

text \<open>
  \<open>scrape_candidate\<close>: the events the task emits and what it returns or raises. A
  candidate that needs prize confirmation and has no prize returns \<open>None\<close>; one that
  needs none and has no prize gets the generic prize.
\<close>

definition scrape_candidate ::
  "DevpostScraper \<Rightarrow> string \<Rightarrow> string \<Rightarrow> task
     \<Rightarrow> event list \<times> (app_error + (string option \<times> project) option)" where
  "scrape_candidate self the_hackathon_name normalized_hackathon_url t =
     (case t of (candidate, requires_prize_confirmation) \<Rightarrow>
      (case snd (fetch_text_with_options (http_client self) (project_url candidate)
                   (Some (project_max_retries (settings (http_client self))))
                   (Some (project_retry_backoff_base_seconds (settings (http_client self))))) of
         Inl e \<Rightarrow> ([], Inl e)
       | Inr project_html \<Rightarrow>
           (case parse_project_page (parser self) (project_url candidate) project_html
                   normalized_hackathon_url of
              Inl e \<Rightarrow> ([], Inl e)
            | Inr proj \<Rightarrow>
                if requires_prize_confirmation \<and> prizes proj = [] then ([], Inr None)
                else
                  (let proj' =
                         (if \<not> requires_prize_confirmation \<and> prizes proj = []
                          then proj\<lparr>prizes :=
                                 [\<lparr>hackathon_name = the_hackathon_name,
                                   hackathon_url = normalized_hackathon_url,
                                   prize_name = ''Winner''\<rparr>]\<rparr>
                          else proj)
                   in ((if requires_prize_confirmation
                        then [WinnerProjectFound (p_project_title proj') (p_project_url proj')
                                (software_id candidate) (Some ''project_page_prize_confirmation'')
                                (p_preview_image_url proj')]
                        else []),
                       Inr (Some (software_id candidate, proj')))))))"

subsection \<open>Scheduling and draining\<close>

definition schedule_candidate :: "WinnerCandidate \<Rightarrow> bool \<Rightarrow> crawl_state \<Rightarrow> crawl_state" where
  "schedule_candidate candidate requires_prize_confirmation st =
     (if project_url candidate \<in> scheduled_project_urls st then st
      else st\<lparr>scheduled_project_urls := insert (project_url candidate) (scheduled_project_urls st),
               total_candidates_scheduled := total_candidates_scheduled st + 1,
               pending_scrape_tasks := pending_scrape_tasks st @ [(candidate, requires_prize_confirmation)],
               created_tasks := created_tasks st @ [(candidate, requires_prize_confirmation)]\<rparr>)"

text \<open>
  The body of \<open>for task in done\<close>. A task that raised makes \<open>task.result()\<close> raise, which
  ends the loop; a task that returned \<open>None\<close> is skipped; any other result is appended
  to the winners and reported. The events a task emitted itself are recorded here,
  when its result is consumed.
\<close>

fun consume_done ::
  "(task \<Rightarrow> event list \<times> (app_error + (string option \<times> project) option))
     \<Rightarrow> task list \<Rightarrow> crawl_state \<Rightarrow> crawl_state \<times> app_error option" where
  "consume_done result [] st = (st, None)"
| "consume_done result (t # ts) st =
     (let st1 = st\<lparr>pending_scrape_tasks := remove1 t (pending_scrape_tasks st)\<rparr> in
      case snd (result t) of
        Inl e \<Rightarrow> (st1, Some e)
      | Inr None \<Rightarrow> consume_done result ts st1
      | Inr (Some (sid, proj)) \<Rightarrow>
          (let st2 = st1\<lparr>events := events st1 @ fst (result t), winners := winners st1 @ [proj]\<rparr>;
               winner_index = length (winners st2)
           in consume_done result ts
                (progress_callback
                   (WinnerProjectScraped winner_index
                      (max (total_candidates_scheduled st2) winner_index)
                      (p_project_title proj) (p_project_url proj) (length (prizes proj)) proj)
                   st2)))"

text \<open>
  \<open>drain_completed_scrapes\<close>. Without \<open>wait_for_all\<close> it consumes the pending tasks that
  have finished; with it, it goes on until every pending task has been consumed, the
  ones not yet finished in the order in which they finish later (here: as created).
\<close>

definition finished_tasks :: "DevpostScraper \<Rightarrow> crawl_state \<Rightarrow> task list" where
  "finished_tasks self st =
     filter (\<lambda>t. t \<in> set (pending_scrape_tasks st)) (remdups (done_at self (drains st)))"

definition drain_completed_scrapes ::
  "DevpostScraper \<Rightarrow> (task \<Rightarrow> event list \<times> (app_error + (string option \<times> project) option))
     \<Rightarrow> bool \<Rightarrow> crawl_state \<Rightarrow> crawl_state \<times> app_error option" where
  "drain_completed_scrapes self result wait_for_all st =
     (let done = finished_tasks self st;
          rest = filter (\<lambda>t. t \<notin> set done) (pending_scrape_tasks st)
      in consume_done result (if wait_for_all then done @ rest else done)
           (st\<lparr>drains := drains st + 1\<rparr>))"

subsection \<open>The gallery walk\<close>

datatype loop_exit = Exited | LoopRaised app_error | OutOfFuel

text \<open>The loop over \<open>parsed_page.winner_entries\<close>.\<close>

definition schedule_winner :: "WinnerCandidate \<Rightarrow> crawl_state \<Rightarrow> crawl_state" where
  "schedule_winner entry st =
     schedule_candidate entry False
       (progress_callback
          (WinnerProjectFound (project_title entry) (project_url entry) (software_id entry) None
             (preview_image_url entry))
          (st\<lparr>found_gallery_winners := True\<rparr>))"

text \<open>
  \<open>while page_url and page_url not in visited_pages\<close>. A gallery may go on for ever
  with new page addresses, so the walk takes fuel, one unit for each page.
\<close>

fun gallery_loop ::
  "DevpostScraper \<Rightarrow> (task \<Rightarrow> event list \<times> (app_error + (string option \<times> project) option))
     \<Rightarrow> nat \<Rightarrow> string option \<Rightarrow> crawl_state \<Rightarrow> crawl_state \<times> loop_exit" where
  "gallery_loop self result 0 page_url st = (st, OutOfFuel)"
| "gallery_loop self result (Suc fuel) None st = (st, Exited)"
| "gallery_loop self result (Suc fuel) (Some url) st =
     (if url = [] \<or> url \<in> visited_pages st then (st, Exited)
      else
        (let st1 = st\<lparr>visited_pages := insert url (visited_pages st)\<rparr> in
         case snd (fetch_text (http_client self) url) of
           Inl e \<Rightarrow> (st1, LoopRaised e)
         | Inr page_html \<Rightarrow>
             (let parsed_page = parse_gallery_page (parser self) url page_html;
                  st2 = st1\<lparr>scanned_pages := scanned_pages st1 + 1,
                            scanned_projects_total :=
                              scanned_projects_total st1 + scanned_projects parsed_page,
                            all_candidates := all_candidates st1 @ all_entries parsed_page\<rparr>;
                  st3 = fold schedule_winner (winner_entries parsed_page) st2;
                  st4 = progress_callback
                          (GalleryPageScanned url (scanned_pages st3) (scanned_projects parsed_page)
                             (length (winner_entries parsed_page)) (next_page_url parsed_page))
                          st3
              in case drain_completed_scrapes self result False st4 of
                   (st5, Some e) \<Rightarrow> (st5, LoopRaised e)
                 | (st5, None) \<Rightarrow> gallery_loop self result fuel (next_page_url parsed_page) st5)))"

subsection \<open>Fallback and result\<close>

text \<open>The candidates of all pages, the first of each \<open>project_url\<close> only.\<close>

fun unique_candidates :: "string set \<Rightarrow> WinnerCandidate list \<Rightarrow> WinnerCandidate list" where
  "unique_candidates seen_project_urls [] = []"
| "unique_candidates seen_project_urls (candidate # rest) =
     (if project_url candidate \<in> seen_project_urls then unique_candidates seen_project_urls rest
      else candidate #
           unique_candidates (insert (project_url candidate) seen_project_urls) rest)"

definition schedule_confirm :: "WinnerCandidate \<Rightarrow> crawl_state \<Rightarrow> crawl_state" where
  "schedule_confirm candidate st = schedule_candidate candidate True st"

definition after_gallery :: "bool \<Rightarrow> crawl_state \<Rightarrow> crawl_state" where
  "after_gallery should_run_deep_fallback st =
     (if \<not> found_gallery_winners st \<and> should_run_deep_fallback then
        (let unique_all_candidates = unique_candidates {} (all_candidates st)
         in fold schedule_confirm unique_all_candidates
              (progress_callback
                 (WinnerDetectionFallback ''gallery_badges_missing'' (length unique_all_candidates)) st))
      else if \<not> found_gallery_winners st then
        progress_callback
          (WinnersNotAnnounced ''Hackathon page indicates winners are not announced yet.'') st
      else st)"

text \<open>The \<open>finally\<close> clause cancels the tasks that are still pending.\<close>

definition cancel_pending :: "crawl_state \<Rightarrow> crawl_state" where
  "cancel_pending st = st\<lparr>pending_scrape_tasks := []\<rparr>"

record hackathon_info =
  h_name :: string
  h_url :: string
  h_gallery_url :: string
  h_scanned_pages :: nat
  h_scanned_projects :: nat
  h_winner_count :: nat

record crawl_result =
  hackathon :: hackathon_info
  result_winners :: "project list"
  generated_at :: string

datatype crawl_outcome = Completed crawl_result | Failed exn | Diverged

text \<open>
  What follows the gallery walk: fallback or notice, the exhaustive drain, the
  \<open>finally\<close> clause, the check that a gallery page was scanned, and the result.
\<close>

definition finish_crawl ::
  "DevpostScraper \<Rightarrow> (task \<Rightarrow> event list \<times> (app_error + (string option \<times> project) option))
     \<Rightarrow> string \<Rightarrow> string \<Rightarrow> string \<Rightarrow> bool \<Rightarrow> crawl_state \<times> loop_exit
     \<Rightarrow> crawl_state \<times> crawl_outcome" where
  "finish_crawl self result the_name normalized_hackathon_url gallery_url should_run_deep_fallback walk =
     (case walk of
        (st, OutOfFuel) \<Rightarrow> (st, Diverged)
      | (st, LoopRaised e) \<Rightarrow> (cancel_pending st, Failed (AppError e))
      | (st, Exited) \<Rightarrow>
          (case drain_completed_scrapes self result True
                  (after_gallery should_run_deep_fallback st) of
             (st', Some e) \<Rightarrow> (cancel_pending st', Failed (AppError e))
           | (st', None) \<Rightarrow>
               if scanned_pages st' = 0
               then (cancel_pending st',
                     Failed (AppError (ParseAppError
                       ''Unable to locate or parse the project gallery page'')))
               else (cancel_pending st',
                     Completed
                       \<lparr>hackathon =
                          \<lparr>h_name = the_name, h_url = normalized_hackathon_url,
                           h_gallery_url = gallery_url,
                           h_scanned_pages = scanned_pages st',
                           h_scanned_projects = scanned_projects_total st',
                           h_winner_count = length (winners st')\<rparr>,
                         result_winners = winners st',
                         generated_at = utcnow_iso self\<rparr>)))"

definition scrape_hackathon ::
  "DevpostScraper \<Rightarrow> nat \<Rightarrow> string \<Rightarrow> crawl_state \<times> crawl_outcome" where
  "scrape_hackathon self fuel the_hackathon_url =
     (case normalize_hackathon_url (bracketed_host_ok self) the_hackathon_url of
        Inl e \<Rightarrow> (initial_state, Failed e)
      | Inr normalized_hackathon_url \<Rightarrow>
          (case snd (fetch_text (http_client self) normalized_hackathon_url) of
             Inl e \<Rightarrow> (initial_state, Failed (AppError e))
           | Inr hackathon_html \<Rightarrow>
               (let the_name = parse_hackathon_name (parser self) hackathon_html;
                    should_run_deep_fallback = winners_are_announced (parser self) hackathon_html;
                    gallery_url = resolve_gallery_url (parser self) normalized_hackathon_url hackathon_html;
                    result = scrape_candidate self the_name normalized_hackathon_url
                in finish_crawl self result the_name normalized_hackathon_url gallery_url
                     should_run_deep_fallback
                     (gallery_loop self result fuel (Some gallery_url) initial_state))))"

text \<open>Whether the landing page of a target says that the winners are announced.\<close>

definition landing_announced :: "DevpostScraper \<Rightarrow> string \<Rightarrow> bool" where
  "landing_announced self the_hackathon_url =
     (case normalize_hackathon_url (bracketed_host_ok self) the_hackathon_url of
        Inl e \<Rightarrow> False
      | Inr normalized_hackathon_url \<Rightarrow>
          (case snd (fetch_text (http_client self) normalized_hackathon_url) of
             Inl e \<Rightarrow> False
           | Inr hackathon_html \<Rightarrow> winners_are_announced (parser self) hackathon_html))"

subsection \<open>Observations on a crawl\<close>

definition urls_of :: "task list \<Rightarrow> string list" where
  "urls_of ts = map (\<lambda>t. project_url (fst t)) ts"

text \<open>A badge-tagged winner is announced by a \<open>winner_project_found\<close> event without a source.\<close>

fun badge_found :: "event \<Rightarrow> bool" where
  "badge_found (WinnerProjectFound title url sid None preview) = True"
| "badge_found other = False"

text \<open>
  A gallery page carries a badge when it can be fetched and its parse has a winner
  entry. A crawl has seen a badge-tagged entry when a page that the walk visited carries
  one; the pages are fetched with the same client, which answers a given address in
  the same way each time.
\<close>

definition badge_on_page :: "DevpostScraper \<Rightarrow> string \<Rightarrow> bool" where
  "badge_on_page self page_url =
     (case snd (fetch_text (http_client self) page_url) of
        Inl e \<Rightarrow> False
      | Inr page_html \<Rightarrow> winner_entries (parse_gallery_page (parser self) page_url page_html) \<noteq> [])"

definition badge_tagged :: "DevpostScraper \<Rightarrow> crawl_state \<Rightarrow> bool" where
  "badge_tagged self st = (\<exists>page_url\<in>visited_pages st. badge_on_page self page_url)"

definition fallback_announced :: "crawl_state \<Rightarrow> bool" where
  "fallback_announced st = list_ex (\<lambda>e. event_type e = ''winner_detection_fallback'') (events st)"

text \<open>The fallback pass ran when its event was emitted or a task that requires prize
  confirmation was created.\<close>

definition fallback_ran :: "crawl_state \<Rightarrow> bool" where
  "fallback_ran st = (fallback_announced st \<or> list_ex snd (created_tasks st))"

definition not_announced_emitted :: "crawl_state \<Rightarrow> bool" where
  "not_announced_emitted st = list_ex (\<lambda>e. event_type e = ''winners_not_announced'') (events st)"

definition sched_inv :: "crawl_state \<Rightarrow> bool" where
  "sched_inv st = (distinct (urls_of (created_tasks st)) \<and>
                   set (urls_of (created_tasks st)) \<subseteq> scheduled_project_urls st)"

text \<open>
  During the gallery walk the fallback has not run and the notice has not been
  emitted, and the flag \<open>found_gallery_winners\<close> is set exactly when a badge-tagged
  winner has been announced.
\<close>

definition walk_inv :: "crawl_state \<Rightarrow> bool" where
  "walk_inv st = (\<not> fallback_ran st \<and> \<not> not_announced_emitted st \<and>
                  found_gallery_winners st = list_ex badge_found (events st))"

text \<open>The events of a deep-fetch task and of its consumption.\<close>

definition task_event :: "event \<Rightarrow> bool" where
  "task_event e = ((event_type e = ''winner_project_found'' \<or> event_type e = ''winner_project_scraped'')
                   \<and> \<not> badge_found e)"

definition tail_inv :: "bool \<Rightarrow> crawl_state \<Rightarrow> bool" where
  "tail_inv b st =
     (found_gallery_winners st = list_ex badge_found (events st) \<and>
      \<not> (found_gallery_winners st \<and> fallback_ran st) \<and>
      \<not> (found_gallery_winners st \<and> not_announced_emitted st) \<and>
      \<not> (fallback_ran st \<and> \<not> b) \<and>
      \<not> (not_announced_emitted st \<and> b) \<and>
      \<not> (not_announced_emitted st \<and> fallback_ran st))"

definition tail_live :: "bool \<Rightarrow> crawl_state \<Rightarrow> bool" where
  "tail_live b st =
     (found_gallery_winners st \<or> (if b then fallback_announced st else not_announced_emitted st))"

fun is_completed :: "crawl_outcome \<Rightarrow> bool" where
  "is_completed (Completed r) = True"
| "is_completed (Failed e) = False"
| "is_completed Diverged = False"

text \<open>The projects that the given tasks return, in the order of the tasks.\<close>

definition returned_project ::
  "(task \<Rightarrow> event list \<times> (app_error + (string option \<times> project) option))
     \<Rightarrow> task \<Rightarrow> project option" where
  "returned_project result t =
     (case snd (result t) of
        Inl e \<Rightarrow> None
      | Inr None \<Rightarrow> None
      | Inr (Some (sid, proj)) \<Rightarrow> Some proj)"

definition returned_projects ::
  "(task \<Rightarrow> event list \<times> (app_error + (string option \<times> project) option))
     \<Rightarrow> task list \<Rightarrow> project list" where
  "returned_projects result ts = List.map_filter (returned_project result) ts"

text \<open>
  The tasks that have been consumed are the created ones that are no longer pending,
  and the winners are the projects they returned.
\<close>

definition consumed_inv ::
  "(task \<Rightarrow> event list \<times> (app_error + (string option \<times> project) option))
     \<Rightarrow> crawl_state \<Rightarrow> bool" where
  "consumed_inv result st =
     (\<exists>cs. mset (created_tasks st) = mset (pending_scrape_tasks st) + mset cs \<and>
           mset (winners st) = mset (returned_projects result cs))"

text \<open>The result of a crawl that completed.\<close>

fun result_of :: "crawl_outcome \<Rightarrow> crawl_result option" where
  "result_of (Completed r) = Some r"
| "result_of (Failed e) = None"
| "result_of Diverged = None"

text \<open>The failure raised for a response with status 403 or 429.\<close>

definition denied :: "string \<Rightarrow> int \<Rightarrow> app_error" where
  "denied the_url sc =
     BlockedAppError (''Devpost denied access while fetching '' @ the_url @ '' (status ''
                        @ str_int sc @ '')'')"

text \<open>Every task created so far is still pending or has not raised.\<close>

definition tasks_ok ::
  "(task \<Rightarrow> event list \<times> (app_error + (string option \<times> project) option))
     \<Rightarrow> crawl_state \<Rightarrow> bool" where
  "tasks_ok result st =
     list_all (\<lambda>t. t \<in> set (pending_scrape_tasks st) \<or> \<not> isl (snd (result t))) (created_tasks st)"

section \<open>Persistence (app/db.py)\<close>

text \<open>
  The SQLite tables as lists of rows in insertion order. Timestamps are fixed-width
  ISO-8601 strings in the code, compared as text; their order is the order of the
  instants, which are natural numbers here. The current time is an argument of every
  operation that reads the clock.
\<close>

record lookup_job =
  job_id :: string
  job_hackathon_url :: string
  status :: string
  created_at :: nat
  started_at :: "nat option"
  finished_at :: "nat option"
  error_code :: "string option"
  error_message :: "string option"

text \<open>The payloads of the events the orchestrator and the API publish.\<close>

datatype payload =
    QueuedPayload string string
  | StartedPayload string
  | CrawlPayload event
  | CompletedPayload string nat
  | FailedPayload string string

record progress_event =
  lookup_job_id :: string
  pe_event_type :: string
  pe_payload :: payload
  pe_created_at :: nat

record rate_limit_event =
  ip_hash :: string
  endpoint :: string
  rl_created_at :: nat

record Database =
  lookup_jobs :: "lookup_job list"
  lookup_progress_events :: "progress_event list"
  lookup_results :: "(string \<times> crawl_result \<times> nat) list"
  rate_limit_events :: "rate_limit_event list"

definition create_lookup_job :: "nat \<Rightarrow> string \<Rightarrow> string \<Rightarrow> Database \<Rightarrow> Database" where
  "create_lookup_job now lookup_id the_hackathon_url d =
     d\<lparr>lookup_jobs := lookup_jobs d @
          [\<lparr>job_id = lookup_id, job_hackathon_url = the_hackathon_url, status = ''queued'',
            created_at = now, started_at = None, finished_at = None,
            error_code = None, error_message = None\<rparr>]\<rparr>"

definition update_job :: "string \<Rightarrow> (lookup_job \<Rightarrow> lookup_job) \<Rightarrow> Database \<Rightarrow> Database" where
  "update_job lookup_id f d =
     d\<lparr>lookup_jobs := map (\<lambda>row. if job_id row = lookup_id then f row else row) (lookup_jobs d)\<rparr>"

definition set_lookup_started :: "nat \<Rightarrow> string \<Rightarrow> Database \<Rightarrow> Database" where
  "set_lookup_started now lookup_id d =
     update_job lookup_id (\<lambda>row. row\<lparr>status := ''started'', started_at := Some now\<rparr>) d"

definition set_lookup_completed :: "nat \<Rightarrow> string \<Rightarrow> Database \<Rightarrow> Database" where
  "set_lookup_completed now lookup_id d =
     update_job lookup_id
       (\<lambda>row. row\<lparr>status := ''completed'', finished_at := Some now,
                   error_code := None, error_message := None\<rparr>) d"

definition set_lookup_failed :: "nat \<Rightarrow> string \<Rightarrow> string \<Rightarrow> string \<Rightarrow> Database \<Rightarrow> Database" where
  "set_lookup_failed now lookup_id the_code the_message d =
     update_job lookup_id
       (\<lambda>row. row\<lparr>status := ''failed'', finished_at := Some now,
                   error_code := Some the_code, error_message := Some the_message\<rparr>) d"

definition save_lookup_result :: "nat \<Rightarrow> string \<Rightarrow> crawl_result \<Rightarrow> Database \<Rightarrow> Database" where
  "save_lookup_result now lookup_id result d =
     d\<lparr>lookup_results :=
          (if lookup_id \<in> set (map fst (lookup_results d))
           then map (\<lambda>(k, v). if k = lookup_id then (k, result, now) else (k, v)) (lookup_results d)
           else lookup_results d @ [(lookup_id, result, now)])\<rparr>"

definition insert_progress_event :: "nat \<Rightarrow> string \<Rightarrow> string \<Rightarrow> payload \<Rightarrow> Database \<Rightarrow> Database" where
  "insert_progress_event now lookup_id the_event_type the_payload d =
     d\<lparr>lookup_progress_events := lookup_progress_events d @
          [\<lparr>lookup_job_id = lookup_id, pe_event_type = the_event_type,
            pe_payload = the_payload, pe_created_at = now\<rparr>]\<rparr>"

definition get_lookup_job :: "string \<Rightarrow> Database \<Rightarrow> lookup_job option" where
  "get_lookup_job lookup_id d = find (\<lambda>row. job_id row = lookup_id) (lookup_jobs d)"

text \<open>
  \<open>ORDER BY created_at ASC LIMIT 1\<close>: a row with the least creation time; among rows
  with equal times SQLite is free to choose, and the first inserted is taken here.
\<close>

definition get_latest_active_lookup_for_url :: "string \<Rightarrow> Database \<Rightarrow> lookup_job option" where
  "get_latest_active_lookup_for_url the_hackathon_url d =
     (case filter (\<lambda>row. job_hackathon_url row = the_hackathon_url
                          \<and> (status row = ''queued'' \<or> status row = ''started''))
             (lookup_jobs d) of
        [] \<Rightarrow> None
      | row # rows \<Rightarrow> Some (arg_min_list created_at (row # rows)))"

definition finished_time :: "lookup_job \<Rightarrow> nat" where
  "finished_time row = (case finished_at row of Some t \<Rightarrow> t | None \<Rightarrow> 0)"

definition get_recent_completed_lookup_for_url ::
  "string \<Rightarrow> nat \<Rightarrow> Database \<Rightarrow> lookup_job option" where
  "get_recent_completed_lookup_for_url the_hackathon_url finished_since d =
     (case filter (\<lambda>row. job_hackathon_url row = the_hackathon_url
                          \<and> status row = ''completed''
                          \<and> job_id row \<in> set (map fst (lookup_results d))
                          \<and> finished_at row \<noteq> None
                          \<and> finished_time row \<ge> finished_since)
             (lookup_jobs d) of
        [] \<Rightarrow> None
      | row # rows \<Rightarrow> Some (arg_min_list (\<lambda>r. - int (finished_time r)) (row # rows)))"

definition count_rate_limit_events :: "string \<Rightarrow> string \<Rightarrow> nat \<Rightarrow> Database \<Rightarrow> int" where
  "count_rate_limit_events the_ip_hash the_endpoint since_timestamp d =
     int (length (filter (\<lambda>e. ip_hash e = the_ip_hash \<and> endpoint e = the_endpoint
                               \<and> rl_created_at e \<ge> since_timestamp)
                    (rate_limit_events d)))"

definition insert_rate_limit_event :: "nat \<Rightarrow> string \<Rightarrow> string \<Rightarrow> Database \<Rightarrow> Database" where
  "insert_rate_limit_event now the_ip_hash the_endpoint d =
     d\<lparr>rate_limit_events := rate_limit_events d @
          [\<lparr>ip_hash = the_ip_hash, endpoint = the_endpoint, rl_created_at = now\<rparr>]\<rparr>"

section \<open>Job orchestrator (app/job\_orchestrator.py)\<close>

text \<open>
  The orchestrator owns the scraper. The other fields are its world: how far the
  gallery walk of a crawl is followed, after how many published events the deadline
  of a job passes (\<open>None\<close> when the crawl ends in time), and which sockets accept a
  message.
\<close>

record JobOrchestrator =
  scraper :: DevpostScraper
  crawl_fuel :: nat
  deadline_after :: "string \<Rightarrow> nat option"
  socket_accepts :: "nat \<Rightarrow> bool"

text \<open>
  The mutable state of the application: the database, the in-process queue (\<open>None\<close>
  until \<open>start\<close> has run), the subscribers of every lookup, and the messages sent to
  sockets so far.
\<close>

record app_state =
  db :: Database
  queue :: "string list option"
  subscribers :: "string \<Rightarrow> nat list"
  sent :: "(nat \<times> progress_event) list"

datatype http_error =
    HTTPException nat string string
  | UncaughtException string

definition enqueue_lookup :: "string \<Rightarrow> app_state \<Rightarrow> http_error + app_state" where
  "enqueue_lookup lookup_id st =
     (case queue st of
        None \<Rightarrow> Inl (UncaughtException ''Lookup worker has not been started.'')
      | Some q \<Rightarrow> Inr (st\<lparr>queue := Some (q @ [lookup_id])\<rparr>))"

text \<open>
  \<open>_broadcast\<close>: every subscribed socket is sent the event; the ones that fail are
  dropped from the subscribers. Before \<open>start\<close> there is no lock and nothing is sent.
\<close>

definition broadcast :: "JobOrchestrator \<Rightarrow> string \<Rightarrow> progress_event \<Rightarrow> app_state \<Rightarrow> app_state" where
  "broadcast self lookup_id ev st =
     (if queue st = None then st
      else
        (let sockets = subscribers st lookup_id;
             stale = filter (\<lambda>s. \<not> socket_accepts self s) sockets
         in st\<lparr>sent := sent st @ map (\<lambda>s. (s, ev)) (filter (socket_accepts self) sockets),
                subscribers := (subscribers st)
                  (lookup_id := filter (\<lambda>s. s \<notin> set stale) (subscribers st lookup_id))\<rparr>))"

definition publish_event ::
  "JobOrchestrator \<Rightarrow> nat \<Rightarrow> string \<Rightarrow> string \<Rightarrow> payload \<Rightarrow> app_state \<Rightarrow> app_state" where
  "publish_event self now lookup_id the_event_type the_payload st =
     broadcast self lookup_id
       \<lparr>lookup_job_id = lookup_id, pe_event_type = the_event_type,
        pe_payload = the_payload, pe_created_at = now\<rparr>
       (st\<lparr>db := insert_progress_event now lookup_id the_event_type the_payload (db st)\<rparr>)"

text \<open>
  \<open>asyncio.wait_for(self.scraper.scrape_hackathon(...), timeout=...)\<close>: the events
  the crawl published and how it ended. A crawl that is cut by the deadline, or that
  would not end, ends in \<open>asyncio.TimeoutError\<close>.
\<close>

definition run_crawl :: "JobOrchestrator \<Rightarrow> string \<Rightarrow> event list \<times> crawl_outcome" where
  "run_crawl self the_hackathon_url =
     (case scrape_hackathon (scraper self) (crawl_fuel self) the_hackathon_url of
        (st, outcome) \<Rightarrow>
          (case deadline_after self the_hackathon_url of
             Some k \<Rightarrow> (take k (events st), Failed AsyncioTimeoutError)
           | None \<Rightarrow>
               (case outcome of
                  Diverged \<Rightarrow> (events st, Failed AsyncioTimeoutError)
                | other \<Rightarrow> (events st, outcome))))"

fun str_exn :: "exn \<Rightarrow> string" where
  "str_exn (AppError e) = message e"
| "str_exn (ValueError m) = m"
| "str_exn AsyncioTimeoutError = []"
| "str_exn (OtherException m) = m"

definition record_failure ::
  "JobOrchestrator \<Rightarrow> nat \<Rightarrow> string \<Rightarrow> string \<Rightarrow> string \<Rightarrow> app_state \<Rightarrow> app_state" where
  "record_failure self now lookup_id the_code the_message st =
     publish_event self now lookup_id ''failed'' (FailedPayload the_code the_message)
       (st\<lparr>db := set_lookup_failed now lookup_id the_code the_message (db st)\<rparr>)"

definition process_lookup :: "JobOrchestrator \<Rightarrow> nat \<Rightarrow> string \<Rightarrow> app_state \<Rightarrow> app_state" where
  "process_lookup self now lookup_id st =
     (case get_lookup_job lookup_id (db st) of
        None \<Rightarrow> st
      | Some job \<Rightarrow>
          (let st1 = publish_event self now lookup_id ''started'' (StartedPayload lookup_id)
                       (st\<lparr>db := set_lookup_started now lookup_id (db st)\<rparr>)
           in case run_crawl self (job_hackathon_url job) of
                (evs, outcome) \<Rightarrow>
                  (let st2 = fold (\<lambda>e. publish_event self now lookup_id (event_type e) (CrawlPayload e))
                               evs st1
                   in case outcome of
                        Completed result \<Rightarrow>
                          publish_event self now lookup_id ''completed''
                            (CompletedPayload lookup_id (length (result_winners result)))
                            (st2\<lparr>db := set_lookup_completed now lookup_id
                                          (save_lookup_result now lookup_id result (db st2))\<rparr>)
                      | Failed AsyncioTimeoutError \<Rightarrow>
                          record_failure self now lookup_id ''timeout_error'' ''Lookup timed out'' st2
                      | Failed (AppError error) \<Rightarrow>
                          record_failure self now lookup_id (code error) (message error) st2
                      | Failed other \<Rightarrow>
                          record_failure self now lookup_id
                            (code (ParseAppError (''Unexpected scraping failure: '' @ str_exn other)))
                            (message (ParseAppError (''Unexpected scraping failure: '' @ str_exn other)))
                            st2
                      | Diverged \<Rightarrow>
                          record_failure self now lookup_id ''timeout_error'' ''Lookup timed out'' st2)))"

text \<open>
  \<open>_worker_loop\<close>: \<open>while True\<close> around the blocking \<open>queue.get()\<close>. The loop never ends
  by itself; \<open>worker_loop self clock n\<close> is the state after at most \<open>n\<close> iterations, and an
  empty queue leaves the worker waiting.
\<close>

fun worker_loop :: "JobOrchestrator \<Rightarrow> (nat \<Rightarrow> nat) \<Rightarrow> nat \<Rightarrow> app_state \<Rightarrow> app_state" where
  "worker_loop self clock 0 st = st"
| "worker_loop self clock (Suc n) st =
     (case queue st of
        None \<Rightarrow> st
      | Some [] \<Rightarrow> st
      | Some (lookup_id # waiting) \<Rightarrow>
          worker_loop self clock n
            (process_lookup self (clock n) lookup_id (st\<lparr>queue := Some waiting\<rparr>)))"

section \<open>Submitting a lookup (app/main.py, app/rate\_limit.py)\<close>

text \<open>
  What one request brings with it: the raw target, the hash of the client address,
  the current time, and the identifier \<open>uuid4\<close> would draw.
\<close>

record lookup_request =
  raw_hackathon_url :: string
  client_ip_hash :: string
  request_time :: nat
  fresh_id :: string

record LookupCreateResponse =
  lookup_id :: string
  response_status :: string

definition LOOKUP_ENDPOINT_KEY :: string where
  "LOOKUP_ENDPOINT_KEY = ''POST:/api/v1/lookups''"

definition enforce_lookup_rate_limit ::
  "Settings \<Rightarrow> lookup_request \<Rightarrow> Database \<Rightarrow> http_error + Database" where
  "enforce_lookup_rate_limit the_settings req d =
     (if \<not> rate_limit_enabled the_settings then Inr d
      else if count_rate_limit_events (client_ip_hash req) LOOKUP_ENDPOINT_KEY
                (request_time req - 3600000000) d \<ge> rate_limit_hourly the_settings
      then Inl (HTTPException 429 ''rate_limit_exceeded'' ''Hourly limit exceeded'')
      else if count_rate_limit_events (client_ip_hash req) LOOKUP_ENDPOINT_KEY
                (request_time req - 86400000000) d \<ge> rate_limit_daily the_settings
      then Inl (HTTPException 429 ''rate_limit_exceeded'' ''Daily limit exceeded'')
      else Inr (insert_rate_limit_event (request_time req) (client_ip_hash req)
                  LOOKUP_ENDPOINT_KEY d))"

definition create_lookup ::
  "JobOrchestrator \<Rightarrow> lookup_request \<Rightarrow> app_state
     \<Rightarrow> (http_error + LookupCreateResponse) \<times> app_state" where
  "create_lookup orchestrator req st =
     (let the_settings = settings (http_client (scraper orchestrator)) in
      case enforce_lookup_rate_limit the_settings req (db st) of
        Inl e \<Rightarrow> (Inl e, st)
      | Inr d1 \<Rightarrow>
          (let st1 = st\<lparr>db := d1\<rparr> in
           case normalize_hackathon_url (bracketed_host_ok (scraper orchestrator))
                  (raw_hackathon_url req) of
             Inl (AppError (ValidationAppError m)) \<Rightarrow>
               (Inl (HTTPException 422 (code (ValidationAppError m)) m), st1)
           | Inl other \<Rightarrow> (Inl (UncaughtException (str_exn other)), st1)
           | Inr normalized \<Rightarrow>
               (case get_latest_active_lookup_for_url normalized (db st1) of
                  Some active_lookup \<Rightarrow>
                    (if status active_lookup = ''queued'' then
                       (case enqueue_lookup (job_id active_lookup) st1 of
                          Inl e \<Rightarrow> (Inl e, st1)
                        | Inr st2 \<Rightarrow>
                            (Inr \<lparr>lookup_id = job_id active_lookup,
                                  response_status = status active_lookup\<rparr>, st2))
                     else (Inr \<lparr>lookup_id = job_id active_lookup,
                                 response_status = status active_lookup\<rparr>, st1))
                | None \<Rightarrow>
                    (case (if lookup_result_cache_ttl_seconds the_settings > 0
                           then get_recent_completed_lookup_for_url normalized
                                  (request_time req
                                     - nat (lookup_result_cache_ttl_seconds the_settings) * 1000000)
                                  (db st1)
                           else None) of
                       Some cached_lookup \<Rightarrow>
                         (Inr \<lparr>lookup_id = job_id cached_lookup,
                               response_status = status cached_lookup\<rparr>, st1)
                     | None \<Rightarrow>
                         (let st2 = publish_event orchestrator (request_time req) (fresh_id req)
                                      ''queued'' (QueuedPayload (fresh_id req) normalized)
                                      (st1\<lparr>db := create_lookup_job (request_time req)
                                                    (fresh_id req) normalized (db st1)\<rparr>)
                          in case enqueue_lookup (fresh_id req) st2 of
                               Inl e \<Rightarrow> (Inl e, st2)
                             | Inr st3 \<Rightarrow>
                                 (Inr \<lparr>lookup_id = fresh_id req, response_status = ''queued''\<rparr>,
                                  st3))))))"

section \<open>A sample hackathon\<close>

text \<open>
  A small world in the shape of the fixtures of the test suite: a landing page, a
  gallery of two pages, and three projects. The first page lists all three projects,
  the second lists the first and the third again. With \<open>badges\<close> the first two projects
  carry a winner badge on the first page and the first one again on the second page.
  Only the first project has a prize on its own page. The server answers 429 for the
  address \<open>blocked\<close> and delivers every other page.
\<close>

definition sample_url :: string where
  "sample_url = ''https://samplehack.devpost.com''"

definition gallery_page_1 :: string where
  "gallery_page_1 = ''https://samplehack.devpost.com/project-gallery''"

definition gallery_page_2 :: string where
  "gallery_page_2 = ''https://samplehack.devpost.com/project-gallery?page=2''"

definition alpha :: WinnerCandidate where
  "alpha = \<lparr>project_title = ''Alpha'', project_url = ''https://devpost.com/software/alpha'',
            software_id = Some ''101'', preview_image_url = None\<rparr>"

definition beta :: WinnerCandidate where
  "beta = \<lparr>project_title = ''Beta'', project_url = ''https://devpost.com/software/beta'',
           software_id = Some ''102'', preview_image_url = None\<rparr>"

definition gamma :: WinnerCandidate where
  "gamma = \<lparr>project_title = ''Gamma'', project_url = ''https://devpost.com/software/gamma'',
            software_id = None, preview_image_url = None\<rparr>"

definition sample_gallery :: "bool \<Rightarrow> string \<Rightarrow> string \<Rightarrow> GalleryParseResult" where
  "sample_gallery badges page_url html =
     (if page_url = gallery_page_1
      then \<lparr>all_entries = [alpha, beta, gamma],
            winner_entries = (if badges then [alpha, beta] else []),
            scanned_projects = 3, next_page_url = Some gallery_page_2\<rparr>
      else \<lparr>all_entries = [alpha, gamma],
            winner_entries = (if badges then [alpha] else []),
            scanned_projects = 2, next_page_url = None\<rparr>)"

definition sample_project :: "string \<Rightarrow> string \<Rightarrow> string \<Rightarrow> app_error + project" where
  "sample_project the_url html target =
     Inr \<lparr>p_project_title = html, p_project_url = the_url, tagline = None,
          p_preview_image_url = None,
          prizes = (if the_url = project_url alpha
                    then [\<lparr>hackathon_name = ''SampleHack'', hackathon_url = target,
                           prize_name = ''First Place''\<rparr>]
                    else []),
          team_members = [], built_with = [], external_links = [],
          description_sections = []\<rparr>"

definition sample_name :: "string \<Rightarrow> string" where
  "sample_name html = ''SampleHack''"

definition sample_announced :: "bool \<Rightarrow> string \<Rightarrow> bool" where
  "sample_announced announced html = announced"

definition sample_resolve :: "string \<Rightarrow> string \<Rightarrow> string" where
  "sample_resolve base html = base @ ''/project-gallery''"

definition sample_parser :: "bool \<Rightarrow> bool \<Rightarrow> page_parser" where
  "sample_parser badges announced =
     \<lparr>parse_hackathon_name = sample_name,
      winners_are_announced = sample_announced announced,
      resolve_gallery_url = sample_resolve,
      parse_gallery_page = sample_gallery badges,
      parse_project_page = sample_project\<rparr>"

definition sample_get :: "string \<Rightarrow> string \<Rightarrow> int \<Rightarrow> get_outcome" where
  "sample_get blocked the_url attempt =
     (if the_url = blocked then Response 429 [] else Response 200 the_url)"

definition no_task :: "nat \<Rightarrow> task list" where
  "no_task k = []"

definition sample_scraper :: "string \<Rightarrow> bool \<Rightarrow> bool \<Rightarrow> DevpostScraper" where
  "sample_scraper blocked badges announced =
     \<lparr>http_client = \<lparr>settings = default_settings, client_get = sample_get blocked\<rparr>,
      parser = sample_parser badges announced,
      bracketed_host_ok = any_bracketed_host,
      utcnow_iso = ''2026-01-01T00:00:00.000000Z'',
      done_at = no_task\<rparr>"

text \<open>A gallery whose first page carries no badge and whose second page carries one.\<close>

definition late_gallery :: "string \<Rightarrow> string \<Rightarrow> GalleryParseResult" where
  "late_gallery page_url html =
     (if page_url = gallery_page_1
      then \<lparr>all_entries = [alpha, beta, gamma], winner_entries = [],
            scanned_projects = 3, next_page_url = Some gallery_page_2\<rparr>
      else \<lparr>all_entries = [alpha, gamma], winner_entries = [alpha],
            scanned_projects = 2, next_page_url = None\<rparr>)"

definition late_badge_scraper :: DevpostScraper where
  "late_badge_scraper =
     (sample_scraper [] False True)
       \<lparr>parser := (sample_parser False True)\<lparr>parse_gallery_page := late_gallery\<rparr>\<rparr>"

definition in_time :: "string \<Rightarrow> nat option" where
  "in_time the_url = None"

definition every_socket :: "nat \<Rightarrow> bool" where
  "every_socket s = True"

definition sample_orchestrator :: "string \<Rightarrow> bool \<Rightarrow> bool \<Rightarrow> JobOrchestrator" where
  "sample_orchestrator blocked badges announced =
     \<lparr>scraper = sample_scraper blocked badges announced, crawl_fuel = 10,
      deadline_after = in_time, socket_accepts = every_socket\<rparr>"

definition no_subscribers :: "string \<Rightarrow> nat list" where
  "no_subscribers the_id = []"

definition sample_job :: "string \<Rightarrow> lookup_job" where
  "sample_job the_status =
     \<lparr>job_id = ''job1'', job_hackathon_url = sample_url, status = the_status, created_at = 5,
      started_at = None, finished_at = None, error_code = None, error_message = None\<rparr>"

definition sample_state :: "lookup_job list \<Rightarrow> string list \<Rightarrow> app_state" where
  "sample_state rows waiting =
     \<lparr>db = \<lparr>lookup_jobs = rows, lookup_progress_events = [], lookup_results = [],
             rate_limit_events = []\<rparr>,
      queue = Some waiting, subscribers = no_subscribers, sent = []\<rparr>"

definition sample_request :: "string \<Rightarrow> string \<Rightarrow> lookup_request" where
  "sample_request raw new_id =
     \<lparr>raw_hackathon_url = raw, client_ip_hash = ''c0ffee'', request_time = 9, fresh_id = new_id\<rparr>"

text \<open>
  The state in which a first submission of the sample target has been accepted as
  \<open>job2\<close> and the worker has taken it from the queue and marked it as started.
\<close>

definition first_submission_started :: app_state where
  "first_submission_started =
     (let s1 = snd (create_lookup (sample_orchestrator [] True True)
                      (sample_request ''samplehack.devpost.com/'' ''job2'') (sample_state [] []))
      in s1\<lparr>db := set_lookup_started 10 ''job2'' (db s1), queue := Some []\<rparr>)"

definition sample_clock :: "nat \<Rightarrow> nat" where
  "sample_clock n = 100 - n"

section \<open>Properties of the fetch client\<close>

lemma retry_loop_budget:
  "length (requests (fst (retry_loop get url rc b le as))) \<le> length as"
  by (induction as arbitrary: le)
     (auto split: attempt_result.splits simp: case_prod_beta le_SucI)

lemma retry_loop_schedule:
  "a \<le> rc \<Longrightarrow>
   \<exists>m. a \<le> m \<and> m \<le> rc \<and> fst (retry_loop get url rc b le [a..rc]) = backoff_schedule b [a..m]"
proof (induction "nat (rc - a)" arbitrary: a le)
  case 0
  then have "a = rc" by simp
  then show ?case
    by (auto simp: upto_rec1 [of rc rc] split: attempt_result.splits intro!: exI [of _ rc])
next
  case (Suc n)
  then have lt: "a < rc" and n: "n = nat (rc - (a + 1))" by auto
  have unf: "[a..rc] = a # [a + 1..rc]" using lt by (simp add: upto_rec1)
  show ?case
  proof (cases "try_get url (get a)")
    case (Returned r)
    then show ?thesis using lt unf by (auto intro!: exI [of _ a])
  next
    case (Reraised e)
    then show ?thesis using lt unf by (auto intro!: exI [of _ a])
  next
    case (Handled exc)
    from Suc.hyps(1) [OF n, of "Some exc"] lt
    obtain m where m: "a + 1 \<le> m" "m \<le> rc"
      "fst (retry_loop get url rc b (Some exc) [a + 1..rc]) = backoff_schedule b [a + 1..m]"
      by auto
    have "[a..m] = a # [a + 1..m]" using m(1) by (simp add: upto_rec1)
    moreover have "[a + 1..m] = (a + 1) # [a + 1 + 1..m]"
      using m(1) upto_rec1 [of "a + 1" m] by simp
    ultimately have "backoff_schedule b [a..m] =
        Get a # Sleep (b * 2 ^ nat (a - 1)) # backoff_schedule b [a + 1..m]"
      by simp
    with Handled m lt unf show ?thesis
      by (auto split: prod.splits intro!: exI [of _ m])
  qed
qed

lemma retry_loop_exhaust:
  "a \<le> rc \<Longrightarrow> \<forall>k. a \<le> k \<and> k \<le> rc \<longrightarrow> retryable url (get k) \<Longrightarrow>
   requests (fst (retry_loop get url rc b le [a..rc])) = [a..rc] \<and>
   snd (retry_loop get url rc b le [a..rc]) =
     Inl (after_loop url (the_caught (try_get url (get rc))))"
proof (induction "nat (rc - a)" arbitrary: a le)
  case 0
  then have "a = rc" by simp
  with 0 show ?case
    by (auto simp: retryable_def upto_rec1 [of rc rc] split: attempt_result.splits)
next
  case (Suc n)
  then have lt: "a < rc" and n: "n = nat (rc - (a + 1))" by auto
  have unf: "[a..rc] = a # [a + 1..rc]" using lt by (simp add: upto_rec1)
  from Suc.prems(2) lt have "retryable url (get a)" by simp
  then obtain exc where h: "try_get url (get a) = Handled exc"
    by (cases "try_get url (get a)") (auto simp: retryable_def)
  have "a + 1 \<le> rc" using lt by simp
  moreover have "\<forall>k. a + 1 \<le> k \<and> k \<le> rc \<longrightarrow> retryable url (get k)"
    using Suc.prems(2) by auto
  ultimately have ih:
    "requests (fst (retry_loop get url rc b (Some exc) [a + 1..rc])) = [a + 1..rc] \<and>
     snd (retry_loop get url rc b (Some exc) [a + 1..rc]) =
       Inl (after_loop url (the_caught (try_get url (get rc))))"
    using Suc.hyps(1) [OF n] by blast
  show ?case using h lt ih unf by (auto split: prod.splits)
qed

lemma other_client_error_handled:
  "other_client_error sc \<Longrightarrow>
   try_get url (Response sc body) =
     Handled (CaughtNetworkAppError
       (NetworkAppError (''Unable to fetch '' @ url @ ''; received '' @ str_int sc)))"
  by (simp add: other_client_error_def)

text \<open>
  C1 (as stated: a status from 400 on other than 403, 429 and 5xx fails at once, with
  exactly one request). With the default budget of three attempts a server that always
  answers 404 receives three requests, separated by the backoff sleeps.
\<close>

theorem other_client_error_single_request_counterexample:
  "fst (fetch_with_retries
          \<lparr>settings = default_settings, client_get = every_attempt (Response 404 [])\<rparr>
          ''https://samplehack.devpost.com'' None None)
     = [Get 1, Sleep (3 / 5), Get 2, Sleep (6 / 5), Get 3] \<and>
   requests (fst (fetch_with_retries
          \<lparr>settings = default_settings, client_get = every_attempt (Response 404 [])\<rparr>
          ''https://samplehack.devpost.com'' None None)) \<noteq> [1]"
  by (simp add: fetch_with_retries_def retry_count_for_def backoff_base_for_def
        default_settings_def every_attempt_def upto_rec1)

text \<open>
  C1 (amended): a status from 400 on other than 403, 429 and 5xx raises a network error
  that the retrying handler catches like any other. When every attempt of the budget
  receives such a status, exactly \<open>max_retries\<close> requests are issued and the fetch fails
  with the network error raised for the last response.
\<close>

theorem other_client_error_is_retried:
  assumes "retry_count_for self mr = rc" and "1 \<le> rc"
    and "\<forall>k. 1 \<le> k \<and> k \<le> rc \<longrightarrow>
           client_get self url k = Response (st k) (bd k) \<and> other_client_error (st k)"
  shows "requests (fst (fetch_with_retries self url mr bo)) = [1..rc] \<and>
         snd (fetch_with_retries self url mr bo) =
           Inl (NetworkAppError (''Unable to fetch '' @ url @ ''; received '' @ str_int (st rc))) \<and>
         code (NetworkAppError (''Unable to fetch '' @ url @ ''; received '' @ str_int (st rc)))
           = ''network_error''"
proof -
  have r: "\<forall>k. 1 \<le> k \<and> k \<le> rc \<longrightarrow> retryable url (client_get self url k)"
  proof (intro allI impI)
    fix k assume "1 \<le> k \<and> k \<le> rc"
    with assms(3) have "client_get self url k = Response (st k) (bd k)" "other_client_error (st k)"
      by auto
    then show "retryable url (client_get self url k)"
      by (simp add: retryable_def other_client_error_handled del: try_get.simps)
  qed
  have last: "try_get url (client_get self url rc) =
      Handled (CaughtNetworkAppError
        (NetworkAppError (''Unable to fetch '' @ url @ ''; received '' @ str_int (st rc))))"
    using assms(2,3) other_client_error_handled [of "st rc" url "bd rc"] by simp
  from retry_loop_exhaust [OF assms(2) r, of "backoff_base_for self bo" None] last assms(1)
  show ?thesis by (simp add: fetch_with_retries_def)
qed

theorem other_client_error_is_retried_witness:
  "requests (fst (fetch_with_retries
          \<lparr>settings = default_settings, client_get = every_attempt (Response 404 [])\<rparr>
          ''https://samplehack.devpost.com'' (Some 2) None)) = [1, 2] \<and>
   snd (fetch_with_retries
          \<lparr>settings = default_settings, client_get = every_attempt (Response 404 [])\<rparr>
          ''https://samplehack.devpost.com'' (Some 2) None)
     = Inl (NetworkAppError ''Unable to fetch https://samplehack.devpost.com; received 404'')"
proof -
  have h1: "retry_count_for
      \<lparr>settings = default_settings, client_get = every_attempt (Response 404 [])\<rparr> (Some 2) = 2"
    by (simp add: retry_count_for_def)
  have h2: "(1::int) \<le> 2" by simp
  have h3: "\<forall>k. 1 \<le> k \<and> k \<le> (2::int) \<longrightarrow>
      client_get \<lparr>settings = default_settings, client_get = every_attempt (Response 404 [])\<rparr>
        ''https://samplehack.devpost.com'' k = Response 404 [] \<and> other_client_error 404"
    by (simp add: every_attempt_def other_client_error_def)
  from other_client_error_is_retried [OF h1 h2, of "''https://samplehack.devpost.com''"
      "\<lambda>k. 404" "\<lambda>k. []", OF h3, of None]
  show ?thesis by (simp add: upto_rec1 str_int_def digit_char_def)
qed

lemma retryable_after_loop:
  "retryable url outcome \<Longrightarrow>
   after_loop url (the_caught (try_get url outcome)) = exhausted_failure url outcome"
  by (cases outcome) (auto simp: retryable_def split: if_splits)

text \<open>
  C7: a fetch with a budget of \<open>max_retries\<close> attempts issues at most that many
  requests, the first one included; its trace is a run of attempts \<open>1..m\<close> with a sleep
  of \<open>backoff_base * 2 ^ (k - 1)\<close> seconds between attempt \<open>k\<close> and attempt \<open>k + 1\<close>;
  and when every attempt of the budget fails in a retryable way, all \<open>max_retries\<close>
  attempts are made and the fetch ends in the timeout failure if the last attempt
  timed out and in the last network error otherwise.
\<close>

theorem retry_budget_backoff_and_exhaustion:
  assumes "retry_count_for self mr = rc" and "1 \<le> rc"
  shows "int (length (requests (fst (fetch_with_retries self url mr bo)))) \<le> rc \<and>
         (\<exists>m. 1 \<le> m \<and> m \<le> rc \<and>
              fst (fetch_with_retries self url mr bo) =
                backoff_schedule (backoff_base_for self bo) [1..m]) \<and>
         ((\<forall>k. 1 \<le> k \<and> k \<le> rc \<longrightarrow> retryable url (client_get self url k)) \<longrightarrow>
            requests (fst (fetch_with_retries self url mr bo)) = [1..rc] \<and>
            snd (fetch_with_retries self url mr bo) =
              Inl (exhausted_failure url (client_get self url rc)))"
proof (intro conjI impI)
  have "length (requests (fst (fetch_with_retries self url mr bo))) \<le> length [1..rc]"
    unfolding fetch_with_retries_def assms(1) by (rule retry_loop_budget)
  then show "int (length (requests (fst (fetch_with_retries self url mr bo)))) \<le> rc"
    using assms(2) by simp
next
  show "\<exists>m. 1 \<le> m \<and> m \<le> rc \<and>
            fst (fetch_with_retries self url mr bo) =
              backoff_schedule (backoff_base_for self bo) [1..m]"
    unfolding fetch_with_retries_def assms(1) by (rule retry_loop_schedule [OF assms(2)])
next
  assume r: "\<forall>k. 1 \<le> k \<and> k \<le> rc \<longrightarrow> retryable url (client_get self url k)"
  from retry_loop_exhaust [OF assms(2) r, of "backoff_base_for self bo" None]
  show "requests (fst (fetch_with_retries self url mr bo)) = [1..rc]"
    by (simp add: fetch_with_retries_def assms(1))
next
  assume r: "\<forall>k. 1 \<le> k \<and> k \<le> rc \<longrightarrow> retryable url (client_get self url k)"
  then have "retryable url (client_get self url rc)" using assms(2) by simp
  then have "after_loop url (the_caught (try_get url (client_get self url rc))) =
      exhausted_failure url (client_get self url rc)"
    by (rule retryable_after_loop)
  with retry_loop_exhaust [OF assms(2) r, of "backoff_base_for self bo" None]
  show "snd (fetch_with_retries self url mr bo) =
      Inl (exhausted_failure url (client_get self url rc))"
    by (simp add: fetch_with_retries_def assms(1))
qed

theorem retry_budget_backoff_and_exhaustion_witness:
  "fst (fetch_with_retries
      \<lparr>settings = default_settings,
       client_get = scripted [Response 503 [], RequestError ''reset'', TimeoutException ''read'']\<rparr>
      ''https://samplehack.devpost.com'' None None)
     = [Get 1, Sleep (3 / 5), Get 2, Sleep (6 / 5), Get 3] \<and>
   snd (fetch_with_retries
      \<lparr>settings = default_settings,
       client_get = scripted [Response 503 [], RequestError ''reset'', TimeoutException ''read'']\<rparr>
      ''https://samplehack.devpost.com'' None None)
     = Inl (TimeoutAppError ''Request timeout while fetching https://samplehack.devpost.com'')"
proof -
  let ?c = "\<lparr>settings = default_settings,
       client_get = scripted [Response 503 [], RequestError ''reset'', TimeoutException ''read'']\<rparr>"
  have h1: "retry_count_for ?c None = 3"
    by (simp add: retry_count_for_def default_settings_def)
  have h2: "(1::int) \<le> 3" by simp
  have h3: "\<forall>k. 1 \<le> k \<and> k \<le> 3 \<longrightarrow>
      retryable ''https://samplehack.devpost.com'' (client_get ?c ''https://samplehack.devpost.com'' k)"
  proof (intro allI impI)
    fix k :: int assume "1 \<le> k \<and> k \<le> 3"
    then have "k = 1 \<or> k = 2 \<or> k = 3" by arith
    then show "retryable ''https://samplehack.devpost.com''
        (client_get ?c ''https://samplehack.devpost.com'' k)"
      by (elim disjE) (simp_all add: retryable_def scripted_def)
  qed
  from retry_budget_backoff_and_exhaustion [OF h1 h2, of "''https://samplehack.devpost.com''" None] h3
  show ?thesis
    by (simp add: fetch_with_retries_def retry_count_for_def backoff_base_for_def
          default_settings_def scripted_def upto_rec1)
qed

text \<open>
  C2 (as stated: a body that is not JSON, or JSON that is not an object, makes
  \<open>fetch_json\<close> fail with the parse code). Both cases raise \<open>NetworkAppError\<close>, whose
  code is \<open>network_error\<close>.
\<close>

theorem fetch_json_parse_code_counterexample:
  "snd (fetch_json not_json
          \<lparr>settings = default_settings, client_get = every_attempt (Response 200 ''<html>'')\<rparr>
          ''https://devpost.com/api/hackathons'')
     = Inl (NetworkAppError ''Invalid JSON response while fetching https://devpost.com/api/hackathons'') \<and>
   snd (fetch_json json_array
          \<lparr>settings = default_settings, client_get = every_attempt (Response 200 ''[]'')\<rparr>
          ''https://devpost.com/api/hackathons'')
     = Inl (NetworkAppError ''Unexpected JSON payload while fetching https://devpost.com/api/hackathons'') \<and>
   code (NetworkAppError ''Invalid JSON response while fetching https://devpost.com/api/hackathons'')
     \<noteq> ''parse_error'' \<and>
   code (NetworkAppError ''Unexpected JSON payload while fetching https://devpost.com/api/hackathons'')
     \<noteq> ''parse_error''"
  by (simp add: fetch_json_def fetch_with_retries_def retry_count_for_def backoff_base_for_def
        default_settings_def every_attempt_def not_json_def json_array_def upto_rec1)

text \<open>
  C2 (amended): when the response of \<open>fetch_json\<close> has a body that does not decode as
  JSON, or that decodes to a value other than an object, the call fails with a
  failure whose code is \<open>network_error\<close>.
\<close>

theorem fetch_json_malformed_is_network_error:
  assumes "snd (fetch_with_retries self url None None) = Inr r"
    and "json_decode (body_text r) = None \<or>
         (\<exists>payload. json_decode (body_text r) = Some payload \<and> \<not> is_dict payload)"
  shows "\<exists>e. snd (fetch_json json_decode self url) = Inl e \<and> code e = ''network_error''"
  using assms by (auto simp: fetch_json_def split: prod.splits sum.splits)

theorem fetch_json_malformed_is_network_error_witness:
  "\<exists>e. snd (fetch_json json_array
          \<lparr>settings = default_settings, client_get = every_attempt (Response 200 ''[]'')\<rparr>
          ''https://devpost.com/api/hackathons'') = Inl e \<and> code e = ''network_error''"
proof -
  let ?c = "\<lparr>settings = default_settings, client_get = every_attempt (Response 200 ''[]'')\<rparr>"
  have h1: "snd (fetch_with_retries ?c ''https://devpost.com/api/hackathons'' None None)
      = Inr \<lparr>status_code = 200, body_text = ''[]''\<rparr>"
    by (simp add: fetch_with_retries_def retry_count_for_def backoff_base_for_def
          default_settings_def every_attempt_def upto_rec1)
  have h2: "json_array (body_text \<lparr>status_code = 200, body_text = ''[]''\<rparr>) = None \<or>
      (\<exists>payload. json_array (body_text \<lparr>status_code = 200, body_text = ''[]''\<rparr>) = Some payload
         \<and> \<not> is_dict payload)"
    by (simp add: json_array_def)
  from fetch_json_malformed_is_network_error [where json_decode = json_array, OF h1 h2]
  show ?thesis .
qed

section \<open>Properties of target normalization\<close>













lemma startswith_append: "startswith (pre @ rest) pre"
  by (simp add: startswith_def)








lemma before_Cons_same: "before c (c # xs) = []"
  by (simp add: before_def)













lemma dropWhile_all_not: "list_all (\<lambda>c. \<not> P c) s \<Longrightarrow> dropWhile P s = s"
  by (cases s) auto

lemma rstrip_all_not: "list_all (\<lambda>c. \<not> P c) s \<Longrightarrow> rstrip P s = s"
  unfolding rstrip_def using dropWhile_all_not [of P "rev s"] by (simp add: list_all_iff)

lemma strip_no_space: "no_space r \<Longrightarrow> strip r = r"
  by (simp add: strip_def lstrip_def no_space_def dropWhile_all_not rstrip_all_not)





lemma startswith_append_more: "startswith c pre \<Longrightarrow> startswith (c @ x) pre"
  unfolding startswith_def by (metis append_eq_conv_conj append.assoc append_take_drop_id)
























lemma no_space_strip_ne: "no_space r \<Longrightarrow> r \<noteq> [] \<Longrightarrow> strip r \<noteq> []"
  by (simp add: strip_no_space)

lemma no_space_append: "no_space (a @ b) = (no_space a \<and> no_space b)"
  by (simp add: no_space_def)





section \<open>Properties of the crawl engine\<close>

lemmas crawl_sample_defs = sample_scraper_def sample_parser_def sample_project_def sample_get_def
  sample_gallery_def sample_name_def sample_announced_def sample_resolve_def default_settings_def
  alpha_def beta_def gamma_def sample_url_def gallery_page_1_def gallery_page_2_def no_task_def

lemmas fetch_defs = fetch_text_def fetch_text_with_options_def fetch_with_retries_def
  retry_count_for_def backoff_base_for_def upto_rec1 str_int_def digit_char_def

subsection \<open>Invariants of the gallery walk\<close>

lemma sched_inv_initial: "sched_inv initial_state"
  by (simp add: sched_inv_def initial_state_def urls_of_def)

lemma sched_inv_schedule: "sched_inv st \<Longrightarrow> sched_inv (schedule_candidate c r st)"
  by (auto simp: sched_inv_def schedule_candidate_def urls_of_def)

lemma sched_inv_cong:
  "created_tasks st' = created_tasks st \<Longrightarrow> scheduled_project_urls st' = scheduled_project_urls st \<Longrightarrow>
   sched_inv st' = sched_inv st"
  by (simp add: sched_inv_def)

lemma sched_inv_winner: "sched_inv st \<Longrightarrow> sched_inv (schedule_winner c st)"
  unfolding schedule_winner_def
  by (rule sched_inv_schedule) (simp add: sched_inv_def progress_callback_def)

lemma sched_inv_fold_winner: "sched_inv st \<Longrightarrow> sched_inv (fold schedule_winner cs st)"
  by (induction cs arbitrary: st) (simp_all add: sched_inv_winner)

lemma sched_inv_fold_confirm: "sched_inv st \<Longrightarrow> sched_inv (fold schedule_confirm cs st)"
  by (induction cs arbitrary: st) (simp_all add: schedule_confirm_def sched_inv_schedule)

lemma consume_done_created:
  "created_tasks (fst (consume_done result ts st)) = created_tasks st \<and>
   scheduled_project_urls (fst (consume_done result ts st)) = scheduled_project_urls st"
  by (induction ts arbitrary: st)
     (auto simp: Let_def progress_callback_def split: sum.splits option.splits prod.splits)

lemma drain_created:
  "created_tasks (fst (drain_completed_scrapes self result w st)) = created_tasks st \<and>
   scheduled_project_urls (fst (drain_completed_scrapes self result w st)) = scheduled_project_urls st"
  by (simp add: drain_completed_scrapes_def Let_def consume_done_created)

lemma sched_inv_drain:
  "sched_inv st \<Longrightarrow> sched_inv (fst (drain_completed_scrapes self result w st))"
  using drain_created [of self result w st] by (simp add: sched_inv_def)

lemma gallery_loop_invariant:
  assumes init: "P st"
    and visit: "\<And>st url. P st \<Longrightarrow> P (st\<lparr>visited_pages := insert url (visited_pages st)\<rparr>)"
    and page: "\<And>st n m cs. P st \<Longrightarrow>
        P (st\<lparr>scanned_pages := n, scanned_projects_total := m, all_candidates := cs\<rparr>)"
    and winner: "\<And>st c. P st \<Longrightarrow> P (schedule_winner c st)"
    and scanned: "\<And>st u n k m nx. P st \<Longrightarrow> P (progress_callback (GalleryPageScanned u n k m nx) st)"
    and drain: "\<And>st. P st \<Longrightarrow> P (fst (drain_completed_scrapes self result False st))"
  shows "P (fst (gallery_loop self result fuel page st))"
  using init drain
proof (induction self result fuel page st rule: gallery_loop.induct)
  case (1 self result page_url st)
  then show ?case by simp
next
  case (2 self result fuel st)
  then show ?case by simp
next
  case (3 self result fuel url st)
  note drain' = 3(3) and IH = 3(1)
  show ?case
  proof (cases "url = [] \<or> url \<in> visited_pages st")
    case True
    then show ?thesis using 3(2) by simp
  next
    case False
    let ?st1 = "st\<lparr>visited_pages := insert url (visited_pages st)\<rparr>"
    have i1: "P ?st1" using 3(2) by (rule visit)
    show ?thesis
    proof (cases "snd (fetch_text (http_client self) url)")
      case (Inl e)
      then show ?thesis using False i1 by simp
    next
      case (Inr page_html)
      let ?pp = "parse_gallery_page (parser self) url page_html"
      let ?st2 = "?st1\<lparr>scanned_pages := scanned_pages ?st1 + 1,
                            scanned_projects_total :=
                              scanned_projects_total ?st1 + scanned_projects ?pp,
                            all_candidates := all_candidates ?st1 @ all_entries ?pp\<rparr>"
      let ?st3 = "fold schedule_winner (winner_entries ?pp) ?st2"
      let ?st4 = "progress_callback
                          (GalleryPageScanned url (scanned_pages ?st3) (scanned_projects ?pp)
                             (length (winner_entries ?pp)) (next_page_url ?pp))
                          ?st3"
      have i2: "P ?st2" using i1 by (rule page)
      have fw: "P (fold schedule_winner cs s)" if "P s" for cs s
        using that by (induction cs arbitrary: s) (simp_all add: winner)
      have i3: "P ?st3" using i2 by (rule fw)
      have i4: "P ?st4" using i3 by (rule scanned)
      obtain st5 err where d: "(st5, err) = drain_completed_scrapes self result False ?st4"
        by (cases "drain_completed_scrapes self result False ?st4") auto
      have i5: "P st5" using drain' [OF i4] d [symmetric] by simp
      show ?thesis
      proof (cases err)
        case None
        have "P (fst (gallery_loop self result fuel (next_page_url ?pp) st5))"
          by (rule IH [OF False refl Inr refl refl refl refl d None i5 drain'])
        then show ?thesis
          using False Inr d [symmetric] None by (simp add: Let_def)
      next
        case (Some e)
        then show ?thesis
          using False Inr d [symmetric] i5 by (simp add: Let_def)
      qed
    qed
  qed
qed


lemma scrape_hackathon_invariant:
  assumes init: "P initial_state"
    and visit: "\<And>st url. P st \<Longrightarrow> P (st\<lparr>visited_pages := insert url (visited_pages st)\<rparr>)"
    and page: "\<And>st n m cs. P st \<Longrightarrow>
        P (st\<lparr>scanned_pages := n, scanned_projects_total := m, all_candidates := cs\<rparr>)"
    and winner: "\<And>st c. P st \<Longrightarrow> P (schedule_winner c st)"
    and scanned: "\<And>st u n k m nx. P st \<Longrightarrow> P (progress_callback (GalleryPageScanned u n k m nx) st)"
    and drain: "\<And>st w nm nz. P st \<Longrightarrow>
        P (fst (drain_completed_scrapes self (scrape_candidate self nm nz) w st))"
    and after: "\<And>st b. P st \<Longrightarrow> P (after_gallery b st)"
    and cancel: "\<And>st. P st \<Longrightarrow> P (cancel_pending st)"
  shows "P (fst (scrape_hackathon self fuel url))"
proof (cases "normalize_hackathon_url (bracketed_host_ok self) url")
  case (Inl e)
  then show ?thesis using init by (simp add: scrape_hackathon_def)
next
  case (Inr nz)
  show ?thesis
  proof (cases "snd (fetch_text (http_client self) nz)")
    case (Inl e)
    then show ?thesis using Inr init by (simp add: scrape_hackathon_def)
  next
    case html: (Inr html)
    let ?nm = "parse_hackathon_name (parser self) html"
    let ?res = "scrape_candidate self ?nm nz"
    let ?g = "resolve_gallery_url (parser self) nz html"
    obtain st ex where w: "gallery_loop self ?res fuel (Some ?g) initial_state = (st, ex)"
      by (cases "gallery_loop self ?res fuel (Some ?g) initial_state")
    have "P (fst (gallery_loop self ?res fuel (Some ?g) initial_state))"
      by (rule gallery_loop_invariant [where P = P, OF init visit page winner scanned drain])
    then have i: "P st" using w by simp
    let ?a = "after_gallery (winners_are_announced (parser self) html) st"
    obtain st' err where d: "drain_completed_scrapes self ?res True ?a = (st', err)"
      by (cases "drain_completed_scrapes self ?res True ?a")
    have "P (fst (drain_completed_scrapes self ?res True ?a))" by (rule drain [OF after [OF i]])
    then have i': "P st'" using d by simp
    have "P (fst (finish_crawl self ?res ?nm nz ?g (winners_are_announced (parser self) html) (st, ex)))"
      using i i' cancel d by (cases ex; cases err) (auto simp: finish_crawl_def)
    then show ?thesis using Inr html w by (simp add: scrape_hackathon_def Let_def)
  qed
qed

lemma sched_inv_cancel: "sched_inv st \<Longrightarrow> sched_inv (cancel_pending st)"
  by (simp add: sched_inv_def cancel_pending_def)

lemma sched_inv_event: "sched_inv st \<Longrightarrow> sched_inv (progress_callback e st)"
  by (simp add: sched_inv_def progress_callback_def)

lemma sched_inv_after: "sched_inv st \<Longrightarrow> sched_inv (after_gallery b st)"
  unfolding after_gallery_def Let_def
  by (simp add: sched_inv_fold_confirm sched_inv_event)

text \<open>
  C4: in every crawl, whatever the pages list, however the deep fetches are timed and
  however far the gallery is followed, the tasks created for deep fetches have
  pairwise different project addresses.
\<close>

theorem no_project_scheduled_twice:
  "distinct (urls_of (created_tasks (fst (scrape_hackathon self fuel url))))"
proof -
  have "sched_inv (fst (scrape_hackathon self fuel url))"
  proof (rule scrape_hackathon_invariant [where P = sched_inv])
    show "sched_inv initial_state" by (rule sched_inv_initial)
  qed (simp_all add: sched_inv_winner sched_inv_drain sched_inv_after sched_inv_cancel,
       simp_all add: sched_inv_def progress_callback_def)
  then show ?thesis by (simp add: sched_inv_def)
qed


theorem no_project_scheduled_twice_witness:
  "distinct (urls_of (created_tasks (fst (scrape_hackathon (sample_scraper [] True True) 10 sample_url)))) \<and>
   urls_of (created_tasks (fst (scrape_hackathon (sample_scraper [] True True) 10 sample_url)))
     = [''https://devpost.com/software/alpha'', ''https://devpost.com/software/beta'']"
proof -
  have w: "urls_of (created_tasks (fst (scrape_hackathon (sample_scraper [] True True) 10 sample_url)))
     = [''https://devpost.com/software/alpha'', ''https://devpost.com/software/beta'']"
    by code_simp
  from no_project_scheduled_twice [of "sample_scraper [] True True" 10 sample_url] w
  show ?thesis by simp
qed

subsection \<open>Events of the deep fetches\<close>

lemma scrape_candidate_events: "\<forall>e\<in>set (fst (scrape_candidate self nm nz t)). task_event e"
  by (cases t) (auto simp: scrape_candidate_def task_event_def Let_def split: sum.splits)

lemma consume_done_events:
  assumes "\<forall>t. \<forall>e\<in>set (fst (result t)). task_event e"
  shows "\<exists>es. events (fst (consume_done result ts st)) = events st @ es \<and> (\<forall>e\<in>set es. task_event e)"
proof (induction ts arbitrary: st)
  case Nil
  then show ?case by simp
next
  case (Cons t ts)
  let ?st1 = "st\<lparr>pending_scrape_tasks := remove1 t (pending_scrape_tasks st)\<rparr>"
  show ?case
  proof (cases "snd (result t)")
    case (Inl e)
    then show ?thesis by (simp add: Let_def)
  next
    case (Inr r)
    show ?thesis
    proof (cases r)
      case None
      with Inr Cons [of ?st1] show ?thesis by (simp add: Let_def)
    next
      case (Some sp)
      obtain sid proj where sp: "sp = (sid, proj)" by (cases sp)
      let ?st2 = "?st1\<lparr>events := events ?st1 @ fst (result t), winners := winners ?st1 @ [proj]\<rparr>"
      let ?ev = "WinnerProjectScraped (length (winners ?st2))
                      (max (total_candidates_scheduled ?st2) (length (winners ?st2)))
                      (p_project_title proj) (p_project_url proj) (length (prizes proj)) proj"
      from Cons [of "progress_callback ?ev ?st2"]
      obtain es where es: "events (fst (consume_done result ts (progress_callback ?ev ?st2)))
          = events (progress_callback ?ev ?st2) @ es" "\<forall>e\<in>set es. task_event e" by blast
      have eq: "events (fst (consume_done result (t # ts) st)) = events st @ (fst (result t) @ [?ev] @ es)"
        using Inr Some sp es(1) by (simp add: Let_def progress_callback_def)
      have "task_event ?ev" by (simp add: task_event_def)
      moreover have "\<forall>e\<in>set (fst (result t)). task_event e" using assms by blast
      ultimately have "\<forall>e\<in>set (fst (result t) @ [?ev] @ es). task_event e"
        using es(2) by (simp add: ball_Un)
      with eq show ?thesis by blast
    qed
  qed
qed

lemma consume_done_found:
  "found_gallery_winners (fst (consume_done result ts st)) = found_gallery_winners st"
  by (induction ts arbitrary: st)
     (auto simp: Let_def progress_callback_def split: sum.splits option.splits prod.splits)

lemma drain_facts:
  assumes "\<forall>t. \<forall>e\<in>set (fst (result t)). task_event e"
  shows "\<exists>es. events (fst (drain_completed_scrapes self result w st)) = events st @ es
           \<and> (\<forall>e\<in>set es. task_event e)"
    and "found_gallery_winners (fst (drain_completed_scrapes self result w st)) = found_gallery_winners st"
    and "created_tasks (fst (drain_completed_scrapes self result w st)) = created_tasks st"
proof -
  let ?st = "st\<lparr>drains := drains st + 1\<rparr>"
  show "\<exists>es. events (fst (drain_completed_scrapes self result w st)) = events st @ es
           \<and> (\<forall>e\<in>set es. task_event e)"
    using consume_done_events [OF assms, of _ ?st] by (simp add: drain_completed_scrapes_def Let_def)
  show "found_gallery_winners (fst (drain_completed_scrapes self result w st)) = found_gallery_winners st"
    by (simp add: drain_completed_scrapes_def Let_def consume_done_found)
  show "created_tasks (fst (drain_completed_scrapes self result w st)) = created_tasks st"
    by (simp add: drain_created)
qed

lemma task_events_neutral:
  assumes "\<forall>e\<in>set es. task_event e"
  shows "list_ex badge_found (xs @ es) = list_ex badge_found xs"
    "list_ex (\<lambda>e. event_type e = ''winner_detection_fallback'') (xs @ es)
       = list_ex (\<lambda>e. event_type e = ''winner_detection_fallback'') xs"
    "list_ex (\<lambda>e. event_type e = ''winners_not_announced'') (xs @ es)
       = list_ex (\<lambda>e. event_type e = ''winners_not_announced'') xs"
  using assms by (auto simp: list_ex_iff task_event_def)

lemma drain_observations:
  assumes "\<forall>t. \<forall>e\<in>set (fst (result t)). task_event e"
  shows "fallback_ran (fst (drain_completed_scrapes self result w st)) = fallback_ran st"
    "fallback_announced (fst (drain_completed_scrapes self result w st)) = fallback_announced st"
    "not_announced_emitted (fst (drain_completed_scrapes self result w st)) = not_announced_emitted st"
    "list_ex badge_found (events (fst (drain_completed_scrapes self result w st)))
       = list_ex badge_found (events st)"
proof -
  from drain_facts(1) [OF assms, of self w st]
  obtain es where es: "events (fst (drain_completed_scrapes self result w st)) = events st @ es"
    "\<forall>e\<in>set es. task_event e" by blast
  show "fallback_announced (fst (drain_completed_scrapes self result w st)) = fallback_announced st"
    unfolding fallback_announced_def es(1) by (rule task_events_neutral(2) [OF es(2)])
  then show "fallback_ran (fst (drain_completed_scrapes self result w st)) = fallback_ran st"
    by (simp add: fallback_ran_def drain_facts(3) [OF assms])
  show "not_announced_emitted (fst (drain_completed_scrapes self result w st)) = not_announced_emitted st"
    unfolding not_announced_emitted_def es(1) by (rule task_events_neutral(3) [OF es(2)])
  show "list_ex badge_found (events (fst (drain_completed_scrapes self result w st)))
       = list_ex badge_found (events st)"
    unfolding es(1) by (rule task_events_neutral(1) [OF es(2)])
qed


subsection \<open>Fallback and notice\<close>

lemmas obs_defs = walk_inv_def tail_inv_def tail_live_def fallback_ran_def fallback_announced_def
  not_announced_emitted_def

lemma walk_inv_initial: "walk_inv initial_state"
  by (simp add: obs_defs initial_state_def)

lemma walk_inv_winner: "walk_inv st \<Longrightarrow> walk_inv (schedule_winner c st)"
  by (auto simp: obs_defs schedule_winner_def schedule_candidate_def progress_callback_def)

lemma walk_inv_drain:
  "walk_inv st \<Longrightarrow> walk_inv (fst (drain_completed_scrapes self (scrape_candidate self nm nz) w st))"
  unfolding walk_inv_def
  using drain_observations [of "scrape_candidate self nm nz" self w st]
        drain_facts(2) [of "scrape_candidate self nm nz" self w st]
        scrape_candidate_events [of self nm nz]
  by simp

lemma walk_inv_gallery:
  "walk_inv (fst (gallery_loop self (scrape_candidate self nm nz) fuel page initial_state))"
proof (rule gallery_loop_invariant [where P = walk_inv])
  show "walk_inv initial_state" by (rule walk_inv_initial)
qed (simp_all add: walk_inv_winner walk_inv_drain, simp_all add: obs_defs progress_callback_def)

lemma fold_confirm_facts:
  "events (fold schedule_confirm cs st) = events st \<and>
   found_gallery_winners (fold schedule_confirm cs st) = found_gallery_winners st"
  by (induction cs arbitrary: st) (simp_all add: schedule_confirm_def schedule_candidate_def)

lemma after_gallery_tail:
  assumes "walk_inv st"
  shows "tail_inv b (after_gallery b st) \<and> tail_live b (after_gallery b st)"
proof (cases "found_gallery_winners st")
  case True
  then have "after_gallery b st = st" by (simp add: after_gallery_def)
  with True assms show ?thesis by (simp add: obs_defs)
next
  case False
  show ?thesis
  proof (cases b)
    case True
    with False assms show ?thesis
      by (simp add: after_gallery_def Let_def obs_defs fold_confirm_facts progress_callback_def)
  next
    case F: False
    with False assms show ?thesis
      by (simp add: after_gallery_def Let_def obs_defs progress_callback_def)
  qed
qed

lemma tail_drain:
  assumes "tail_inv b st \<and> tail_live b st"
  shows "tail_inv b (fst (drain_completed_scrapes self (scrape_candidate self nm nz) w st)) \<and>
         tail_live b (fst (drain_completed_scrapes self (scrape_candidate self nm nz) w st))"
proof -
  have a: "\<forall>t. \<forall>e\<in>set (fst (scrape_candidate self nm nz t)). task_event e"
    using scrape_candidate_events by blast
  show ?thesis
    using assms
    by (auto simp: tail_inv_def tail_live_def drain_observations [OF a] drain_facts(2) [OF a])
qed

lemma tail_cancel:
  "tail_inv b (cancel_pending st) = tail_inv b st" "tail_live b (cancel_pending st) = tail_live b st"
  by (simp_all add: obs_defs cancel_pending_def)

lemma walk_tail: "walk_inv st \<Longrightarrow> tail_inv b st"
  by (simp add: obs_defs)

lemma finish_crawl_tail:
  assumes "walk_inv st"
  shows "tail_inv b (fst (finish_crawl self (scrape_candidate self nm nz) nm nz g b (st, ex))) \<and>
         (snd (finish_crawl self (scrape_candidate self nm nz) nm nz g b (st, ex)) = Completed r \<longrightarrow>
            tail_live b (fst (finish_crawl self (scrape_candidate self nm nz) nm nz g b (st, ex))))"
proof (cases ex)
  case Exited
  let ?a = "after_gallery b st"
  obtain st' err where d: "drain_completed_scrapes self (scrape_candidate self nm nz) True ?a = (st', err)"
    by (cases "drain_completed_scrapes self (scrape_candidate self nm nz) True ?a")
  from tail_drain [OF after_gallery_tail [OF assms], of b self nm nz True] d
  have "tail_inv b st' \<and> tail_live b st'" by simp
  then show ?thesis using Exited d by (cases err) (simp_all add: finish_crawl_def tail_cancel)
next
  case (LoopRaised e)
  then show ?thesis using walk_tail [OF assms, of b] by (simp add: finish_crawl_def tail_cancel)
next
  case OutOfFuel
  then show ?thesis using walk_tail [OF assms, of b] by (simp add: finish_crawl_def)
qed

lemma fallback_by_flag:
  assumes "scrape_hackathon self fuel url = (st, outcome)"
  shows "found_gallery_winners st = list_ex badge_found (events st) \<and>
         (found_gallery_winners st \<longrightarrow> \<not> fallback_ran st) \<and>
         (fallback_ran st \<longrightarrow> \<not> found_gallery_winners st \<and> landing_announced self url) \<and>
         (not_announced_emitted st \<longrightarrow>
            \<not> found_gallery_winners st \<and> \<not> landing_announced self url \<and> \<not> fallback_ran st) \<and>
         ((\<exists>r. outcome = Completed r) \<and> \<not> found_gallery_winners st \<longrightarrow>
            (if landing_announced self url
             then fallback_announced st \<and> \<not> not_announced_emitted st
             else not_announced_emitted st \<and> \<not> fallback_ran st))"
proof -
  have "tail_inv (landing_announced self url) st \<and>
        ((\<exists>r. outcome = Completed r) \<longrightarrow> tail_live (landing_announced self url) st)"
  proof (cases "normalize_hackathon_url (bracketed_host_ok self) url")
    case (Inl e)
    then have "st = initial_state" "outcome = Failed e" using assms by (simp_all add: scrape_hackathon_def)
    then show ?thesis using walk_tail [OF walk_inv_initial] by simp
  next
    case (Inr nz)
    show ?thesis
    proof (cases "snd (fetch_text (http_client self) nz)")
      case (Inl e)
      then have "st = initial_state" "outcome = Failed (AppError e)"
        using assms Inr by (simp_all add: scrape_hackathon_def)
      then show ?thesis using walk_tail [OF walk_inv_initial] by simp
    next
      case html: (Inr html)
      let ?nm = "parse_hackathon_name (parser self) html"
      let ?res = "scrape_candidate self ?nm nz"
      let ?g = "resolve_gallery_url (parser self) nz html"
      let ?b = "winners_are_announced (parser self) html"
      have b: "landing_announced self url = ?b" using Inr html by (simp add: landing_announced_def)
      obtain s ex where w: "gallery_loop self ?res fuel (Some ?g) initial_state = (s, ex)"
        by (cases "gallery_loop self ?res fuel (Some ?g) initial_state")
      have i: "walk_inv s" using walk_inv_gallery [of self ?nm nz fuel "Some ?g"] w by simp
      have eq: "finish_crawl self ?res ?nm nz ?g ?b (s, ex) = (st, outcome)"
        using assms Inr html w by (simp add: scrape_hackathon_def Let_def)
      show ?thesis
      proof (intro conjI impI)
        show "tail_inv (landing_announced self url) st"
          using finish_crawl_tail [OF i, of ?b self ?nm nz ?g ex] eq b by simp
      next
        assume "\<exists>r. outcome = Completed r"
        then obtain r where "outcome = Completed r" by blast
        then show "tail_live (landing_announced self url) st"
          using finish_crawl_tail [OF i, of ?b self ?nm nz ?g ex r] eq b by simp
      qed
    qed
  qed
  then show ?thesis by (auto simp: tail_inv_def tail_live_def)
qed


lemma is_completed_ex: "is_completed outcome \<Longrightarrow> \<exists>r. outcome = Completed r"
  by (cases outcome) simp_all


lemma fold_winner_found:
  "found_gallery_winners (fold schedule_winner cs s) = (found_gallery_winners s \<or> cs \<noteq> []) \<and>
   visited_pages (fold schedule_winner cs s) = visited_pages s"
  by (induction cs arbitrary: s)
     (auto simp: schedule_winner_def schedule_candidate_def progress_callback_def)

lemma consume_done_visited:
  "visited_pages (fst (consume_done result ts st)) = visited_pages st"
  by (induction ts arbitrary: st)
     (auto simp: Let_def progress_callback_def split: sum.splits option.splits prod.splits)

lemma drain_visited:
  "visited_pages (fst (drain_completed_scrapes self result w st)) = visited_pages st \<and>
   found_gallery_winners (fst (drain_completed_scrapes self result w st)) = found_gallery_winners st"
  by (simp add: drain_completed_scrapes_def Let_def consume_done_visited consume_done_found)

lemma badge_walk:
  assumes "found_gallery_winners st = badge_tagged self st"
  shows "found_gallery_winners (fst (gallery_loop self result fuel page st))
           = badge_tagged self (fst (gallery_loop self result fuel page st))"
  using assms
proof (induction self result fuel page st rule: gallery_loop.induct)
  case (1 self result page_url st)
  then show ?case by simp
next
  case (2 self result fuel st)
  then show ?case by simp
next
  case (3 self result fuel url st)
  note IH = 3(1)
  show ?case
  proof (cases "url = [] \<or> url \<in> visited_pages st")
    case True
    then show ?thesis using 3(2) by simp
  next
    case False
    let ?st1 = "st\<lparr>visited_pages := insert url (visited_pages st)\<rparr>"
    show ?thesis
    proof (cases "snd (fetch_text (http_client self) url)")
      case (Inl e)
      then have "\<not> badge_on_page self url" by (simp add: badge_on_page_def)
      then have "found_gallery_winners ?st1 = badge_tagged self ?st1"
        using 3(2) by (simp add: badge_tagged_def)
      then show ?thesis using False Inl by simp
    next
      case (Inr page_html)
      let ?pp = "parse_gallery_page (parser self) url page_html"
      let ?st2 = "?st1\<lparr>scanned_pages := scanned_pages ?st1 + 1,
                            scanned_projects_total :=
                              scanned_projects_total ?st1 + scanned_projects ?pp,
                            all_candidates := all_candidates ?st1 @ all_entries ?pp\<rparr>"
      let ?st3 = "fold schedule_winner (winner_entries ?pp) ?st2"
      let ?st4 = "progress_callback
                          (GalleryPageScanned url (scanned_pages ?st3) (scanned_projects ?pp)
                             (length (winner_entries ?pp)) (next_page_url ?pp))
                          ?st3"
      have b: "badge_on_page self url = (winner_entries ?pp \<noteq> [])"
        using Inr by (simp add: badge_on_page_def)
      have f3: "found_gallery_winners ?st3 = (found_gallery_winners st \<or> winner_entries ?pp \<noteq> [])"
        "visited_pages ?st3 = insert url (visited_pages st)"
        using fold_winner_found [of "winner_entries ?pp" ?st2] by simp_all
      have f4: "found_gallery_winners ?st4 = (found_gallery_winners st \<or> winner_entries ?pp \<noteq> [])"
        "visited_pages ?st4 = insert url (visited_pages st)"
        using f3 by (simp_all add: progress_callback_def)
      obtain st5 err where d: "(st5, err) = drain_completed_scrapes self result False ?st4"
        by (cases "drain_completed_scrapes self result False ?st4") auto
      have f5: "found_gallery_winners st5 = (found_gallery_winners st \<or> winner_entries ?pp \<noteq> [])"
        "visited_pages st5 = insert url (visited_pages st)"
        using drain_visited [of self result False ?st4] d [symmetric] f4 by simp_all
      have i5: "found_gallery_winners st5 = badge_tagged self st5"
        using f5 b 3(2) by (auto simp: badge_tagged_def)
      show ?thesis
      proof (cases err)
        case None
        have "found_gallery_winners (fst (gallery_loop self result fuel (next_page_url ?pp) st5))
           = badge_tagged self (fst (gallery_loop self result fuel (next_page_url ?pp) st5))"
          by (rule IH [OF False refl Inr refl refl refl refl d None i5])
        then show ?thesis
          using False Inr d [symmetric] None by (simp add: Let_def)
      next
        case (Some e)
        then show ?thesis
          using False Inr d [symmetric] i5 by (simp add: Let_def)
      qed
    qed
  qed
qed

lemma after_gallery_visited:
  "visited_pages (after_gallery b st) = visited_pages st \<and>
   found_gallery_winners (after_gallery b st) = found_gallery_winners st"
proof -
  have f: "visited_pages (fold schedule_confirm cs s) = visited_pages s \<and>
           found_gallery_winners (fold schedule_confirm cs s) = found_gallery_winners s" for cs s
    by (induction cs arbitrary: s) (auto simp: schedule_confirm_def schedule_candidate_def)
  show ?thesis by (simp add: after_gallery_def Let_def f progress_callback_def)
qed

lemma badge_crawl:
  "found_gallery_winners (fst (scrape_hackathon self fuel url))
     = badge_tagged self (fst (scrape_hackathon self fuel url))"
proof (cases "normalize_hackathon_url (bracketed_host_ok self) url")
  case (Inl e)
  then show ?thesis by (simp add: scrape_hackathon_def initial_state_def badge_tagged_def)
next
  case (Inr nz)
  show ?thesis
  proof (cases "snd (fetch_text (http_client self) nz)")
    case (Inl e)
    then show ?thesis using Inr by (simp add: scrape_hackathon_def initial_state_def badge_tagged_def)
  next
    case html: (Inr html)
    let ?nm = "parse_hackathon_name (parser self) html"
    let ?res = "scrape_candidate self ?nm nz"
    let ?g = "resolve_gallery_url (parser self) nz html"
    let ?b = "winners_are_announced (parser self) html"
    obtain s ex where w: "gallery_loop self ?res fuel (Some ?g) initial_state = (s, ex)"
      by (cases "gallery_loop self ?res fuel (Some ?g) initial_state")
    have "found_gallery_winners initial_state = badge_tagged self initial_state"
      by (simp add: initial_state_def badge_tagged_def)
    from badge_walk [OF this, of ?res fuel "Some ?g"]
    have i: "found_gallery_winners s = badge_tagged self s" using w by simp
    obtain s' err where d: "drain_completed_scrapes self ?res True (after_gallery ?b s) = (s', err)"
      by (cases "drain_completed_scrapes self ?res True (after_gallery ?b s)")
    have i': "found_gallery_winners s' = badge_tagged self s'"
      using drain_visited [of self ?res True "after_gallery ?b s"] d after_gallery_visited [of ?b s] i
      by (simp add: badge_tagged_def)
    have "found_gallery_winners (fst (finish_crawl self ?res ?nm nz ?g ?b (s, ex)))
            = badge_tagged self (fst (finish_crawl self ?res ?nm nz ?g ?b (s, ex)))"
      using i i' d by (cases ex; cases err) (auto simp: finish_crawl_def cancel_pending_def badge_tagged_def)
    then show ?thesis using Inr html w by (simp add: scrape_hackathon_def Let_def)
  qed
qed

text \<open>
  C5: a crawl has seen a badge-tagged entry when a gallery page that the walk visited
  can be fetched and parses with a winner entry. In every crawl this is so exactly when
  the flag for badge-tagged winners is set, and exactly when a badge-tagged winner was
  announced. When it is so, the fallback pass has not run (neither its event nor a task
  that requires prize confirmation exists); the fallback pass has run only without a
  badge-tagged entry on any visited page and with a landing page that says the winners
  are announced; the notice \<open>winners_not_announced\<close> is emitted only without a
  badge-tagged entry, with a landing page that says otherwise, and without the
  fallback; and a crawl that completes without a badge-tagged entry has emitted the
  fallback event if the winners are announced and the notice, without running the
  fallback, if they are not.
\<close>

theorem fallback_only_without_badges:
  assumes "scrape_hackathon self fuel url = (st, outcome)"
  shows "badge_tagged self st = found_gallery_winners st \<and>
         badge_tagged self st = list_ex badge_found (events st) \<and>
         (badge_tagged self st \<longrightarrow> \<not> fallback_ran st) \<and>
         (fallback_ran st \<longrightarrow> \<not> badge_tagged self st \<and> landing_announced self url) \<and>
         (not_announced_emitted st \<longrightarrow>
            \<not> badge_tagged self st \<and> \<not> landing_announced self url \<and> \<not> fallback_ran st) \<and>
         ((\<exists>r. outcome = Completed r) \<and> \<not> badge_tagged self st \<longrightarrow>
            (if landing_announced self url
             then fallback_announced st \<and> \<not> not_announced_emitted st
             else not_announced_emitted st \<and> \<not> fallback_ran st))"
proof -
  have l: "badge_tagged self st = found_gallery_winners st"
    using badge_crawl [of self fuel url] assms by simp
  show ?thesis
    unfolding l using fallback_by_flag [OF assms] by blast
qed


theorem fallback_only_without_badges_witness:
  "badge_tagged (sample_scraper [] True True)
     (fst (scrape_hackathon (sample_scraper [] True True) 10 sample_url)) \<and>
   \<not> fallback_ran (fst (scrape_hackathon (sample_scraper [] True True) 10 sample_url)) \<and>
   \<not> badge_on_page late_badge_scraper gallery_page_1 \<and>
   badge_on_page late_badge_scraper gallery_page_2 \<and>
   found_gallery_winners (fst (scrape_hackathon late_badge_scraper 10 sample_url)) \<and>
   \<not> fallback_ran (fst (scrape_hackathon late_badge_scraper 10 sample_url)) \<and>
   fallback_announced (fst (scrape_hackathon (sample_scraper [] False True) 10 sample_url)) \<and>
   \<not> not_announced_emitted (fst (scrape_hackathon (sample_scraper [] False True) 10 sample_url)) \<and>
   not_announced_emitted (fst (scrape_hackathon (sample_scraper [] False False) 10 sample_url)) \<and>
   \<not> fallback_ran (fst (scrape_hackathon (sample_scraper [] False False) 10 sample_url))"
proof -
  let ?tt = "scrape_hackathon (sample_scraper [] True True) 10 sample_url"
  let ?late = "scrape_hackathon late_badge_scraper 10 sample_url"
  let ?ft = "scrape_hackathon (sample_scraper [] False True) 10 sample_url"
  let ?ff = "scrape_hackathon (sample_scraper [] False False) 10 sample_url"
  have a: "badge_tagged (sample_scraper [] True True) (fst ?tt)" by code_simp
  have l: "\<not> badge_on_page late_badge_scraper gallery_page_1"
    "badge_on_page late_badge_scraper gallery_page_2"
    "badge_tagged late_badge_scraper (fst ?late)"
    by code_simp+
  have b: "\<not> badge_tagged (sample_scraper [] False True) (fst ?ft)"
    "landing_announced (sample_scraper [] False True) sample_url"
    by code_simp+
  have b': "is_completed (snd ?ft)" by code_simp
  have c: "\<not> badge_tagged (sample_scraper [] False False) (fst ?ff)"
    "\<not> landing_announced (sample_scraper [] False False) sample_url"
    by code_simp+
  have c': "is_completed (snd ?ff)" by code_simp
  have A: "\<not> fallback_ran (fst ?tt)"
    using fallback_only_without_badges [OF prod.collapse [symmetric], of "sample_scraper [] True True" 10 sample_url] a
    by blast
  have L: "found_gallery_winners (fst ?late) \<and> \<not> fallback_ran (fst ?late)"
    using fallback_only_without_badges [OF prod.collapse [symmetric], of late_badge_scraper 10 sample_url] l(3)
    by blast
  have B: "fallback_announced (fst ?ft) \<and> \<not> not_announced_emitted (fst ?ft)"
    using fallback_only_without_badges [OF prod.collapse [symmetric], of "sample_scraper [] False True" 10 sample_url]
      b is_completed_ex [OF b'] by (simp split: if_splits)
  have C: "not_announced_emitted (fst ?ff) \<and> \<not> fallback_ran (fst ?ff)"
    using fallback_only_without_badges [OF prod.collapse [symmetric], of "sample_scraper [] False False" 10 sample_url]
      c is_completed_ex [OF c'] by (simp split: if_splits)
  from a A l(1,2) L B C show ?thesis by blast
qed

subsection \<open>The winners of a completed crawl\<close>

lemma returned_projects_Cons:
  "returned_projects result (t # ts) =
     (case returned_project result t of None \<Rightarrow> returned_projects result ts
      | Some p \<Rightarrow> p # returned_projects result ts)"
  by (simp add: returned_projects_def split: option.splits)

lemma returned_projects_Nil [simp]: "returned_projects result [] = []"
  by (simp add: returned_projects_def)

lemma consumed_inv_events [simp]:
  "consumed_inv result (progress_callback e st) = consumed_inv result st"
  by (simp add: consumed_inv_def progress_callback_def)

lemma consumed_inv_step:
  assumes inv: "consumed_inv result st" and mem: "t \<in> set (pending_scrape_tasks st)"
    and w: "mset (winners st') = mset (winners st) + mset (returned_projects result [t])"
    and c: "created_tasks st' = created_tasks st"
    and p: "pending_scrape_tasks st' = remove1 t (pending_scrape_tasks st)"
  shows "consumed_inv result st'"
proof -
  from inv obtain cs where cs: "mset (created_tasks st) = mset (pending_scrape_tasks st) + mset cs"
    "mset (winners st) = mset (returned_projects result cs)"
    by (auto simp: consumed_inv_def)
  have "mset (pending_scrape_tasks st) = mset (remove1 t (pending_scrape_tasks st)) + {#t#}"
    using mem by simp
  then have a: "mset (created_tasks st') = mset (pending_scrape_tasks st') + mset (t # cs)"
    using cs(1) c p by simp
  have b: "mset (winners st') = mset (returned_projects result (t # cs))"
    using w cs(2) by (simp add: returned_projects_Cons split: option.splits)
  from a b show ?thesis unfolding consumed_inv_def by blast
qed

lemma consume_done_consumed:
  assumes "consumed_inv result st" and "distinct ts" and "set ts \<subseteq> set (pending_scrape_tasks st)"
  shows "consumed_inv result (fst (consume_done result ts st))"
  using assms
proof (induction ts arbitrary: st)
  case Nil
  then show ?case by simp
next
  case (Cons t ts)
  let ?st1 = "st\<lparr>pending_scrape_tasks := remove1 t (pending_scrape_tasks st)\<rparr>"
  have mem: "t \<in> set (pending_scrape_tasks st)" using Cons.prems(3) by simp
  have d: "distinct ts" using Cons.prems(2) by simp
  have sub: "set ts \<subseteq> set (remove1 t (pending_scrape_tasks st))"
  proof
    fix x assume x: "x \<in> set ts"
    then have "x \<noteq> t" using Cons.prems(2) by auto
    moreover have "x \<in> set (pending_scrape_tasks st)" using x Cons.prems(3) by auto
    ultimately show "x \<in> set (remove1 t (pending_scrape_tasks st))"
      by (simp add: in_set_remove1)
  qed
  show ?case
  proof (cases "snd (result t)")
    case (Inl e)
    have "consumed_inv result ?st1"
      by (rule consumed_inv_step [OF Cons.prems(1) mem])
         (simp_all add: returned_projects_Cons returned_project_def Inl)
    then show ?thesis using Inl by simp
  next
    case (Inr v)
    show ?thesis
    proof (cases v)
      case None
      have i1: "consumed_inv result ?st1"
        by (rule consumed_inv_step [OF Cons.prems(1) mem])
           (simp_all add: returned_projects_Cons returned_project_def Inr None)
      from Cons.IH [OF i1 d] sub show ?thesis using Inr None by simp
    next
      case (Some sp)
      obtain sid proj where sp: "sp = (sid, proj)" by (cases sp)
      let ?st2 = "?st1\<lparr>events := events ?st1 @ fst (result t), winners := winners ?st1 @ [proj]\<rparr>"
      let ?st3 = "progress_callback
                   (WinnerProjectScraped (length (winners ?st2))
                      (max (total_candidates_scheduled ?st2) (length (winners ?st2)))
                      (p_project_title proj) (p_project_url proj) (length (prizes proj)) proj)
                   ?st2"
      have i2: "consumed_inv result ?st2"
        by (rule consumed_inv_step [OF Cons.prems(1) mem])
           (simp_all add: returned_projects_Cons returned_project_def Inr Some sp)
      then have i3: "consumed_inv result ?st3" by simp
      have "set ts \<subseteq> set (pending_scrape_tasks ?st3)"
        using sub by (simp add: progress_callback_def)
      from Cons.IH [OF i3 d this] show ?thesis
        using Inr Some sp by (simp add: Let_def)
    qed
  qed
qed

lemma consumed_distinct_pending:
  assumes "consumed_inv result st" and "distinct (created_tasks st)"
  shows "distinct (pending_scrape_tasks st)"
proof -
  from assms(1) obtain cs where "mset (created_tasks st) = mset (pending_scrape_tasks st) + mset cs"
    by (auto simp: consumed_inv_def)
  then have "count (mset (created_tasks st)) a
                 = count (mset (pending_scrape_tasks st)) a + count (mset cs) a" for a
    by simp
  moreover have "count (mset (created_tasks st)) a \<le> 1" for a
  proof -
    have "count (mset (created_tasks st)) a = (if a \<in> set (created_tasks st) then 1 else 0)"
      using assms(2) unfolding distinct_count_atmost_1 by blast
    then show ?thesis by simp
  qed
  ultimately have le: "count (mset (pending_scrape_tasks st)) a \<le> 1" for a
    by (metis le_add1 le_trans)
  show ?thesis
    unfolding distinct_count_atmost_1
  proof (intro allI)
    fix a
    show "count (mset (pending_scrape_tasks st)) a
            = (if a \<in> set (pending_scrape_tasks st) then 1 else 0)"
    proof (cases "a \<in> set (pending_scrape_tasks st)")
      case True
      then have "count (mset (pending_scrape_tasks st)) a \<noteq> 0"
        by (simp add: count_eq_zero_iff)
      with le [of a] have "count (mset (pending_scrape_tasks st)) a = 1" by linarith
      then show ?thesis using True by (simp only: if_True)
    next
      case False
      then show ?thesis by (simp add: count_eq_zero_iff)
    qed
  qed
qed

lemma sched_inv_distinct: "sched_inv st \<Longrightarrow> distinct (created_tasks st)"
  by (simp add: sched_inv_def urls_of_def distinct_map)

lemma drain_tasks_distinct:
  assumes "distinct (pending_scrape_tasks st)"
  shows "distinct (finished_tasks self st @
            filter (\<lambda>t. t \<notin> set (finished_tasks self st)) (pending_scrape_tasks st))"
    and "set (finished_tasks self st) \<subseteq> set (pending_scrape_tasks st)"
  using assms by (auto simp: finished_tasks_def)

lemma drain_consumed:
  assumes "consumed_inv result st" and "sched_inv st"
  shows "consumed_inv result (fst (drain_completed_scrapes self result w st))"
proof -
  let ?st = "st\<lparr>drains := drains st + 1\<rparr>"
  let ?done = "finished_tasks self st"
  let ?rest = "filter (\<lambda>t. t \<notin> set ?done) (pending_scrape_tasks st)"
  let ?ts = "if w then ?done @ ?rest else ?done"
  have dp: "distinct (pending_scrape_tasks st)"
    using consumed_distinct_pending [OF assms(1) sched_inv_distinct [OF assms(2)]] .
  have i: "consumed_inv result ?st" using assms(1) by (simp add: consumed_inv_def)
  have d: "distinct ?ts" using drain_tasks_distinct [OF dp, of self] by auto
  have s: "set ?ts \<subseteq> set (pending_scrape_tasks ?st)"
    using drain_tasks_distinct(2) [OF dp, of self] by auto
  from consume_done_consumed [OF i d s] show ?thesis
    by (simp add: drain_completed_scrapes_def Let_def)
qed

lemma consumed_inv_schedule:
  "consumed_inv result st \<Longrightarrow> consumed_inv result (schedule_candidate c r st)"
  by (auto simp: consumed_inv_def schedule_candidate_def)

lemma consumed_inv_winner:
  "consumed_inv result st \<Longrightarrow> consumed_inv result (schedule_winner c st)"
  unfolding schedule_winner_def
  by (rule consumed_inv_schedule) (simp add: consumed_inv_def progress_callback_def)

lemma consumed_inv_after:
  assumes "consumed_inv result st"
  shows "consumed_inv result (after_gallery b st)"
proof -
  have f: "consumed_inv result (fold schedule_confirm cs s)" if "consumed_inv result s" for cs s
    using that by (induction cs arbitrary: s) (simp_all add: schedule_confirm_def consumed_inv_schedule)
  show ?thesis using assms by (simp add: after_gallery_def Let_def f)
qed

lemma consume_done_pending:
  assumes "consume_done result ts st = (st', None)" and "distinct (pending_scrape_tasks st)"
  shows "set (pending_scrape_tasks st') = set (pending_scrape_tasks st) - set ts"
  using assms
proof (induction ts arbitrary: st)
  case Nil
  then show ?case by simp
next
  case (Cons t ts)
  let ?st1 = "st\<lparr>pending_scrape_tasks := remove1 t (pending_scrape_tasks st)\<rparr>"
  have r: "set (remove1 t (pending_scrape_tasks st)) = set (pending_scrape_tasks st) - {t}"
    "distinct (remove1 t (pending_scrape_tasks st))"
    using Cons.prems(2) by simp_all
  show ?case
  proof (cases "snd (result t)")
    case (Inl e)
    then show ?thesis using Cons.prems by simp
  next
    case (Inr v)
    show ?thesis
    proof (cases v)
      case None
      then have "consume_done result ts ?st1 = (st', None)"
        using Cons.prems Inr by simp
      from Cons.IH [OF this] r show ?thesis by auto
    next
      case (Some sp)
      obtain sid proj where sp: "sp = (sid, proj)" by (cases sp)
      let ?st2 = "?st1\<lparr>events := events ?st1 @ fst (result t), winners := winners ?st1 @ [proj]\<rparr>"
      let ?st3 = "progress_callback
                   (WinnerProjectScraped (length (winners ?st2))
                      (max (total_candidates_scheduled ?st2) (length (winners ?st2)))
                      (p_project_title proj) (p_project_url proj) (length (prizes proj)) proj)
                   ?st2"
      have "consume_done result ts ?st3 = (st', None)"
        using Cons.prems Inr Some sp by (simp add: Let_def)
      from Cons.IH [OF this] r show ?thesis
        by (auto simp: progress_callback_def)
    qed
  qed
qed

lemma drain_all_pending:
  assumes "drain_completed_scrapes self result True st = (st', None)"
    and "distinct (pending_scrape_tasks st)"
  shows "pending_scrape_tasks st' = []"
proof -
  let ?done = "finished_tasks self st"
  let ?rest = "filter (\<lambda>t. t \<notin> set ?done) (pending_scrape_tasks st)"
  have c: "consume_done result (?done @ ?rest) (st\<lparr>drains := drains st + 1\<rparr>) = (st', None)"
    using assms(1) by (simp add: drain_completed_scrapes_def Let_def)
  from consume_done_pending [OF c] assms(2)
  have "set (pending_scrape_tasks st') = set (pending_scrape_tasks st) - set (?done @ ?rest)"
    by simp
  then have "set (pending_scrape_tasks st') = {}" by auto
  then show ?thesis by simp
qed

lemma returned_projects_mset:
  "mset xs = mset ys \<Longrightarrow> mset (returned_projects result xs) = mset (returned_projects result ys)"
proof -
  have "mset (returned_projects result zs)
          = image_mset (\<lambda>t. the (returned_project result t))
              (filter_mset (\<lambda>t. returned_project result t \<noteq> None) (mset zs))" for zs
    by (simp add: returned_projects_def map_filter_def comp_def)
  then show "mset xs = mset ys \<Longrightarrow> ?thesis" by simp
qed

lemma returned_projects_remove1:
  "returned_project result t = None \<Longrightarrow>
     returned_projects result (remove1 t xs) = returned_projects result xs"
  by (induction xs) (auto simp: returned_projects_Cons split: option.splits)

lemma returned_projects_mem:
  "t \<in> set xs \<Longrightarrow> returned_project result t = Some p \<Longrightarrow> p \<in> set (returned_projects result xs)"
  by (induction xs) (auto simp: returned_projects_Cons split: option.splits)

lemma walk_consumed:
  "sched_inv (fst (gallery_loop self result fuel page initial_state)) \<and>
   consumed_inv result (fst (gallery_loop self result fuel page initial_state))"
proof (rule gallery_loop_invariant [where P = "\<lambda>st. sched_inv st \<and> consumed_inv result st"])
  show "sched_inv initial_state \<and> consumed_inv result initial_state"
    by (simp add: sched_inv_initial) (simp add: consumed_inv_def initial_state_def)
next
  fix st url assume "sched_inv st \<and> consumed_inv result st"
  then show "sched_inv (st\<lparr>visited_pages := insert url (visited_pages st)\<rparr>) \<and>
             consumed_inv result (st\<lparr>visited_pages := insert url (visited_pages st)\<rparr>)"
    by (simp add: sched_inv_def consumed_inv_def)
next
  fix st n m cs assume "sched_inv st \<and> consumed_inv result st"
  then show "sched_inv (st\<lparr>scanned_pages := n, scanned_projects_total := m, all_candidates := cs\<rparr>) \<and>
             consumed_inv result (st\<lparr>scanned_pages := n, scanned_projects_total := m, all_candidates := cs\<rparr>)"
    by (simp add: sched_inv_def consumed_inv_def)
next
  fix st c assume "sched_inv st \<and> consumed_inv result st"
  then show "sched_inv (schedule_winner c st) \<and> consumed_inv result (schedule_winner c st)"
    by (simp add: sched_inv_winner consumed_inv_winner)
next
  fix st u n k m nx assume "sched_inv st \<and> consumed_inv result st"
  then show "sched_inv (progress_callback (GalleryPageScanned u n k m nx) st) \<and>
             consumed_inv result (progress_callback (GalleryPageScanned u n k m nx) st)"
    by (simp add: sched_inv_event)
next
  fix st assume "sched_inv st \<and> consumed_inv result st"
  then show "sched_inv (fst (drain_completed_scrapes self result False st)) \<and>
             consumed_inv result (fst (drain_completed_scrapes self result False st))"
    by (simp add: sched_inv_drain drain_consumed)
qed

lemma completed_crawl:
  assumes "scrape_hackathon self fuel url = (st, Completed r)"
  shows "\<exists>s'. result_winners r = winners s' \<and> created_tasks st = created_tasks s' \<and>
              pending_scrape_tasks s' = [] \<and>
              consumed_inv (scrape_candidate self (h_name (hackathon r)) (h_url (hackathon r))) s' \<and>
              h_winner_count (hackathon r) = length (result_winners r)"
proof (cases "normalize_hackathon_url (bracketed_host_ok self) url")
  case (Inl e)
  then show ?thesis using assms by (simp add: scrape_hackathon_def)
next
  case (Inr nz)
  show ?thesis
  proof (cases "snd (fetch_text (http_client self) nz)")
    case (Inl e)
    then show ?thesis using assms Inr by (simp add: scrape_hackathon_def)
  next
    case html: (Inr html)
    let ?nm = "parse_hackathon_name (parser self) html"
    let ?res = "scrape_candidate self ?nm nz"
    let ?g = "resolve_gallery_url (parser self) nz html"
    let ?b = "winners_are_announced (parser self) html"
    obtain s ex where w: "gallery_loop self ?res fuel (Some ?g) initial_state = (s, ex)"
      by (cases "gallery_loop self ?res fuel (Some ?g) initial_state")
    have fin: "finish_crawl self ?res ?nm nz ?g ?b (s, ex) = (st, Completed r)"
      using assms Inr html w by (simp add: scrape_hackathon_def Let_def)
    have i: "sched_inv s" "consumed_inv ?res s"
      using walk_consumed [of self ?res fuel "Some ?g"] w by simp_all
    have ia: "sched_inv (after_gallery ?b s)" "consumed_inv ?res (after_gallery ?b s)"
      using i by (simp_all add: sched_inv_after consumed_inv_after)
    obtain s' err where d: "drain_completed_scrapes self ?res True (after_gallery ?b s) = (s', err)"
      by (cases "drain_completed_scrapes self ?res True (after_gallery ?b s)")
    have ex: "ex = Exited" using fin by (cases ex) (simp_all add: finish_crawl_def)
    have err: "err = None" using fin ex d by (cases err) (simp_all add: finish_crawl_def)
    have st: "st = cancel_pending s'"
      and r: "result_winners r = winners s'" "h_name (hackathon r) = ?nm" "h_url (hackathon r) = nz"
             "h_winner_count (hackathon r) = length (winners s')"
      using fin ex d err by (auto simp: finish_crawl_def split: if_splits)
    have i': "consumed_inv ?res s'"
      using drain_consumed [OF ia(2) ia(1), of self True] d by simp
    have p: "pending_scrape_tasks s' = []"
      using drain_all_pending [OF d [unfolded err]]
        consumed_distinct_pending [OF ia(2) sched_inv_distinct [OF ia(1)]] by simp
    show ?thesis
      using r i' p st by (auto simp: cancel_pending_def)
  qed
qed

lemma crawl_winners:
  assumes "scrape_hackathon self fuel url = (st, Completed r)"
  shows "mset (result_winners r)
           = mset (returned_projects (scrape_candidate self (h_name (hackathon r)) (h_url (hackathon r)))
                     (created_tasks st))"
    and "h_winner_count (hackathon r) = length (result_winners r)"
proof -
  let ?res = "scrape_candidate self (h_name (hackathon r)) (h_url (hackathon r))"
  from completed_crawl [OF assms] obtain s' where s':
    "result_winners r = winners s'" "created_tasks st = created_tasks s'"
    "pending_scrape_tasks s' = []" "consumed_inv ?res s'"
    "h_winner_count (hackathon r) = length (result_winners r)"
    by blast
  from s'(4) obtain cs where cs: "mset (created_tasks s') = mset (pending_scrape_tasks s') + mset cs"
    "mset (winners s') = mset (returned_projects ?res cs)"
    by (auto simp: consumed_inv_def)
  have "mset cs = mset (created_tasks st)" using cs(1) s'(2,3) by simp
  from returned_projects_mset [OF this, of ?res] cs(2) s'(1)
  show "mset (result_winners r) = mset (returned_projects ?res (created_tasks st))" by simp
  show "h_winner_count (hackathon r) = length (result_winners r)" by (rule s'(5))
qed

lemma scrape_candidate_prizeless:
  assumes "snd (fetch_text_with_options (http_client self) (project_url candidate)
                   (Some (project_max_retries (settings (http_client self))))
                   (Some (project_retry_backoff_base_seconds (settings (http_client self)))))
             = Inr project_html"
    and "parse_project_page (parser self) (project_url candidate) project_html normalized = Inr proj"
    and "prizes proj = []"
  shows "scrape_candidate self the_name normalized (candidate, False)
           = ([], Inr (Some (software_id candidate,
                 proj\<lparr>prizes := [\<lparr>hackathon_name = the_name, hackathon_url = normalized,
                                   prize_name = ''Winner''\<rparr>]\<rparr>)))"
    and "scrape_candidate self the_name normalized (candidate, True) = ([], Inr None)"
  using assms by (simp_all add: scrape_candidate_def)

text \<open>
  C6: in a crawl that completes, the result list is, up to order, the list of the
  projects that the created deep-fetch tasks returned, and the winner count of the
  result is its length. For a created task whose project page is fetched and parsed
  without a prize record: when the candidate was badge-tagged (no prize confirmation
  required), the task returns the project with exactly one synthesized prize named
  \<open>Winner\<close> that carries the name and the address of the target hackathon, without an
  event of its own, and this project is in the result list; when the candidate was
  scheduled by the fallback pass (prize confirmation required), the task returns
  nothing, without an error and without an event, and the result list is the one that
  the other created tasks account for.
\<close>

theorem prizeless_candidate_kept_or_filtered:
  assumes "scrape_hackathon self fuel url = (st, Completed r)"
    and "(candidate, confirm) \<in> set (created_tasks st)"
    and "snd (fetch_text_with_options (http_client self) (project_url candidate)
                   (Some (project_max_retries (settings (http_client self))))
                   (Some (project_retry_backoff_base_seconds (settings (http_client self)))))
             = Inr project_html"
    and "parse_project_page (parser self) (project_url candidate) project_html (h_url (hackathon r))
           = Inr proj"
    and "prizes proj = []"
  shows "mset (result_winners r)
           = mset (returned_projects (scrape_candidate self (h_name (hackathon r)) (h_url (hackathon r)))
                     (created_tasks st)) \<and>
         h_winner_count (hackathon r) = length (result_winners r) \<and>
         (\<not> confirm \<longrightarrow>
            scrape_candidate self (h_name (hackathon r)) (h_url (hackathon r)) (candidate, confirm)
              = ([], Inr (Some (software_id candidate,
                   proj\<lparr>prizes := [\<lparr>hackathon_name = h_name (hackathon r),
                                     hackathon_url = h_url (hackathon r),
                                     prize_name = ''Winner''\<rparr>]\<rparr>))) \<and>
            proj\<lparr>prizes := [\<lparr>hackathon_name = h_name (hackathon r),
                              hackathon_url = h_url (hackathon r),
                              prize_name = ''Winner''\<rparr>]\<rparr> \<in> set (result_winners r)) \<and>
         (confirm \<longrightarrow>
            scrape_candidate self (h_name (hackathon r)) (h_url (hackathon r)) (candidate, confirm)
              = ([], Inr None) \<and>
            mset (result_winners r)
              = mset (returned_projects (scrape_candidate self (h_name (hackathon r)) (h_url (hackathon r)))
                        (remove1 (candidate, confirm) (created_tasks st))))"
proof -
  let ?res = "scrape_candidate self (h_name (hackathon r)) (h_url (hackathon r))"
  let ?kept = "proj\<lparr>prizes := [\<lparr>hackathon_name = h_name (hackathon r),
                              hackathon_url = h_url (hackathon r),
                              prize_name = ''Winner''\<rparr>]\<rparr>"
  note w = crawl_winners [OF assms(1)]
  note sc = scrape_candidate_prizeless [OF assms(3,4,5), of "h_name (hackathon r)"]
  have kept: "?kept \<in> set (result_winners r)" if "\<not> confirm"
  proof -
    have "returned_project ?res (candidate, confirm) = Some ?kept"
      using that sc(1) by (simp add: returned_project_def)
    from returned_projects_mem [OF assms(2) this]
    have "?kept \<in># mset (result_winners r)" using w(1) by simp
    then show ?thesis by simp
  qed
  have dropped: "mset (result_winners r)
              = mset (returned_projects ?res (remove1 (candidate, confirm) (created_tasks st)))"
    if confirm
  proof -
    have "returned_project ?res (candidate, confirm) = None"
      using that sc(2) by (simp add: returned_project_def)
    from returned_projects_remove1 [OF this, of "created_tasks st"] w(1) show ?thesis by simp
  qed
  show ?thesis
    using w kept dropped sc by (cases confirm) simp_all
qed


theorem prizeless_candidate_kept_or_filtered_witness:
  "\<lparr>p_project_title = ''https://devpost.com/software/beta'',
     p_project_url = ''https://devpost.com/software/beta'', tagline = None,
     p_preview_image_url = None,
     prizes = [\<lparr>hackathon_name = ''SampleHack'', hackathon_url = sample_url,
                prize_name = ''Winner''\<rparr>],
     team_members = [], built_with = [], external_links = [],
     description_sections = []\<rparr>
     \<in> set (result_winners
               (the (result_of (snd (scrape_hackathon (sample_scraper [] True True) 10 sample_url))))) \<and>
   length (result_winners
             (the (result_of (snd (scrape_hackathon (sample_scraper [] True True) 10 sample_url))))) = 2 \<and>
   scrape_candidate (sample_scraper [] False True) ''SampleHack'' sample_url (beta, True)
     = ([], Inr None) \<and>
   length (created_tasks (fst (scrape_hackathon (sample_scraper [] False True) 10 sample_url))) = 3 \<and>
   length (result_winners
             (the (result_of (snd (scrape_hackathon (sample_scraper [] False True) 10 sample_url))))) = 1"
proof -
  let ?tt = "scrape_hackathon (sample_scraper [] True True) 10 sample_url"
  let ?ft = "scrape_hackathon (sample_scraper [] False True) 10 sample_url"
  let ?rt = "the (result_of (snd ?tt))"
  let ?rf = "the (result_of (snd ?ft))"
  let ?proj = "\<lparr>p_project_title = ''https://devpost.com/software/beta'',
           p_project_url = ''https://devpost.com/software/beta'', tagline = None,
           p_preview_image_url = None, prizes = [],
           team_members = [], built_with = [], external_links = [],
           description_sections = []\<rparr>"
  have ct: "is_completed (snd ?tt)" and cf: "is_completed (snd ?ft)" by code_simp+
  have rt: "?tt = (fst ?tt, Completed ?rt)"
    using ct by (cases "snd ?tt") (simp_all add: prod_eq_iff)
  have rf: "?ft = (fst ?ft, Completed ?rf)"
    using cf by (cases "snd ?ft") (simp_all add: prod_eq_iff)
  have nt: "h_name (hackathon ?rt) = ''SampleHack''" "h_url (hackathon ?rt) = sample_url"
    and nf: "h_name (hackathon ?rf) = ''SampleHack''" "h_url (hackathon ?rf) = sample_url"
    by code_simp+
  have mt: "(beta, False) \<in> set (created_tasks (fst ?tt))"
    and mf: "(beta, True) \<in> set (created_tasks (fst ?ft))"
    and lf: "length (created_tasks (fst ?ft)) = 3"
    by code_simp+
  have h1: "snd (fetch_text_with_options (http_client (sample_scraper [] b True)) (project_url beta)
                   (Some (project_max_retries (settings (http_client (sample_scraper [] b True)))))
                   (Some (project_retry_backoff_base_seconds
                            (settings (http_client (sample_scraper [] b True))))))
             = Inr ''https://devpost.com/software/beta''" for b
    by (simp add: crawl_sample_defs fetch_defs)
  have h2: "parse_project_page (parser (sample_scraper [] b True)) (project_url beta)
              ''https://devpost.com/software/beta'' target = Inr ?proj" for b target
    by (simp add: crawl_sample_defs)
  have h3: "prizes ?proj = []" by simp
  have lt: "length (returned_projects (scrape_candidate (sample_scraper [] True True) ''SampleHack'' sample_url)
                      (created_tasks (fst ?tt))) = 2"
    and lr: "length (returned_projects (scrape_candidate (sample_scraper [] False True) ''SampleHack'' sample_url)
                      (remove1 (beta, True) (created_tasks (fst ?ft)))) = 1"
    by code_simp+
  note T = prizeless_candidate_kept_or_filtered [OF rt mt h1 h2 h3]
  note F = prizeless_candidate_kept_or_filtered [OF rf mf h1 h2 h3]
  have A: "?proj\<lparr>prizes := [\<lparr>hackathon_name = ''SampleHack'', hackathon_url = sample_url,
                prize_name = ''Winner''\<rparr>]\<rparr> \<in> set (result_winners ?rt)"
    using T unfolding nt by blast
  have "mset (result_winners ?rt)
          = mset (returned_projects (scrape_candidate (sample_scraper [] True True) ''SampleHack'' sample_url)
                    (created_tasks (fst ?tt)))"
    using T unfolding nt by blast
  then have B: "length (result_winners ?rt) = 2"
    using lt by (metis size_mset)
  have C: "scrape_candidate (sample_scraper [] False True) ''SampleHack'' sample_url (beta, True)
     = ([], Inr None)"
    using F unfolding nf by blast
  have "mset (result_winners ?rf)
          = mset (returned_projects (scrape_candidate (sample_scraper [] False True) ''SampleHack'' sample_url)
                    (remove1 (beta, True) (created_tasks (fst ?ft))))"
    using F unfolding nf by blast
  then have D: "length (result_winners ?rf) = 1"
    using lr by (metis size_mset)
  from A B C lf D show ?thesis by simp
qed

section \<open>Properties of the orchestrator and of submission\<close>

text \<open>
  C10: a lookup id taken from the queue that has no job row is skipped: processing it
  leaves the whole state as it is (no job changes status, no progress event is
  stored, nothing is sent to a socket), and the worker loop goes on with the ids that
  wait behind it.
\<close>

theorem missing_job_is_skipped:
  assumes "get_lookup_job lid (db st) = None"
  shows "process_lookup self now lid st = st \<and>
         lookup_jobs (db (process_lookup self now lid st)) = lookup_jobs (db st) \<and>
         lookup_progress_events (db (process_lookup self now lid st))
           = lookup_progress_events (db st) \<and>
         sent (process_lookup self now lid st) = sent st \<and>
         worker_loop self clock (Suc n) (st\<lparr>queue := Some (lid # waiting)\<rparr>)
           = worker_loop self clock n (st\<lparr>queue := Some waiting\<rparr>)"
proof -
  have 1: "process_lookup self now' lid st' = st'" if "db st' = db st" for st' now'
    using assms that by (simp add: process_lookup_def)
  have "process_lookup self (clock n) lid (st\<lparr>queue := Some waiting\<rparr>) = st\<lparr>queue := Some waiting\<rparr>"
    by (rule 1) simp
  then show ?thesis using 1 [of st now] by simp
qed

theorem missing_job_is_skipped_witness:
  "process_lookup (sample_orchestrator [] True True) 7 ''ghost''
      (sample_state [sample_job ''queued''] [''job1''])
     = sample_state [sample_job ''queued''] [''job1''] \<and>
   worker_loop (sample_orchestrator [] True True) sample_clock (Suc 0)
      (sample_state [sample_job ''queued''] [''ghost'', ''job1''])
     = sample_state [sample_job ''queued''] [''job1'']"
proof -
  have h: "get_lookup_job ''ghost'' (db (sample_state [sample_job ''queued''] [''job1''])) = None"
    by (simp add: get_lookup_job_def sample_state_def sample_job_def)
  from missing_job_is_skipped [OF h, of "sample_orchestrator [] True True" 7 sample_clock 0 "[''job1'']"]
  show ?thesis by (simp add: sample_state_def)
qed

lemma arg_min_list_mem: "xs \<noteq> [] \<Longrightarrow> arg_min_list f xs \<in> set xs"
  by (induction f xs rule: arg_min_list.induct) (auto simp: Let_def)

lemma active_lookup_props:
  assumes "get_latest_active_lookup_for_url u d = Some job"
  shows "job \<in> set (lookup_jobs d)" "job_hackathon_url job = u"
    "status job = ''queued'' \<or> status job = ''started''"
proof -
  let ?rows = "filter (\<lambda>row. job_hackathon_url row = u \<and> (status row = ''queued'' \<or> status row = ''started'')) (lookup_jobs d)"
  from assms have ne: "?rows \<noteq> []" and j: "job = arg_min_list created_at ?rows"
    by (auto simp: get_latest_active_lookup_for_url_def split: list.splits)
  from arg_min_list_mem [OF ne, of created_at] j have "job \<in> set ?rows" by simp
  then show "job \<in> set (lookup_jobs d)" "job_hackathon_url job = u"
    "status job = ''queued'' \<or> status job = ''started''" by auto
qed

text \<open>
  C9: when a submission passes the rate limit, its target normalizes, an active job
  (queued or started) exists for the normalized target and the worker has been
  started, the response carries the id and status of that job; no job row and no
  progress event is written, so a further submission finds the same job again; and
  the job's id is appended to the worker queue exactly when its status is queued.
\<close>

theorem active_job_is_returned:
  assumes "enforce_lookup_rate_limit (settings (http_client (scraper orchestrator))) req (db st) = Inr d1"
    and "normalize_hackathon_url (bracketed_host_ok (scraper orchestrator)) (raw_hackathon_url req) = Inr normalized"
    and "get_latest_active_lookup_for_url normalized (db st) = Some job"
    and "queue st = Some q"
  shows "fst (create_lookup orchestrator req st)
           = Inr \<lparr>lookup_id = job_id job, response_status = status job\<rparr> \<and>
         lookup_jobs (db (snd (create_lookup orchestrator req st))) = lookup_jobs (db st) \<and>
         lookup_progress_events (db (snd (create_lookup orchestrator req st)))
           = lookup_progress_events (db st) \<and>
         get_latest_active_lookup_for_url normalized (db (snd (create_lookup orchestrator req st)))
           = Some job \<and>
         queue (snd (create_lookup orchestrator req st))
           = (if status job = ''queued'' then Some (q @ [job_id job]) else Some q) \<and>
         job \<in> set (lookup_jobs (db st)) \<and> job_hackathon_url job = normalized \<and>
         (status job = ''queued'' \<or> status job = ''started'')"
proof -
  have d1: "lookup_jobs d1 = lookup_jobs (db st)" "lookup_progress_events d1 = lookup_progress_events (db st)"
    using assms(1)
    by (auto simp: enforce_lookup_rate_limit_def insert_rate_limit_event_def split: if_splits)
  then have g: "get_latest_active_lookup_for_url normalized d1 = Some job"
    using assms(3) by (simp add: get_latest_active_lookup_for_url_def)
  show ?thesis
    using assms(1,2,4) g d1 active_lookup_props [OF assms(3)]
    by (auto simp: create_lookup_def Let_def enqueue_lookup_def get_latest_active_lookup_for_url_def)
qed



lemmas sample_defs = sample_orchestrator_def sample_scraper_def sample_request_def
     sample_state_def default_settings_def no_subscribers_def sample_job_def

lemmas create_defs = create_lookup_def enforce_lookup_rate_limit_def Let_def
     get_latest_active_lookup_for_url_def get_recent_completed_lookup_for_url_def
     publish_event_def broadcast_def insert_progress_event_def create_lookup_job_def enqueue_lookup_def

theorem active_job_is_returned_witness:
  "fst (create_lookup (sample_orchestrator [] True True)
          (sample_request ''samplehack.devpost.com/'' ''job2'') (sample_state [] []))
     = Inr \<lparr>lookup_id = ''job2'', response_status = ''queued''\<rparr> \<and>
   fst (create_lookup (sample_orchestrator [] True True)
          (sample_request ''https://samplehack.devpost.com?again=1'' ''job3'') first_submission_started)
     = Inr \<lparr>lookup_id = ''job2'', response_status = ''started''\<rparr> \<and>
   queue (snd (create_lookup (sample_orchestrator [] True True)
          (sample_request ''https://samplehack.devpost.com?again=1'' ''job3'') first_submission_started))
     = Some []"
proof -
  let ?o = "sample_orchestrator [] True True"
  let ?req = "sample_request ''https://samplehack.devpost.com?again=1'' ''job3''"
  let ?job = "\<lparr>job_id = ''job2'', job_hackathon_url = ''https://samplehack.devpost.com'',
      status = ''started'', created_at = 9, started_at = Some 10, finished_at = None,
      error_code = None, error_message = None\<rparr>"
  have n1: "normalize_hackathon_url any_bracketed_host ''samplehack.devpost.com/''
      = Inr ''https://samplehack.devpost.com''"
    by code_simp
  have n2: "normalize_hackathon_url any_bracketed_host ''https://samplehack.devpost.com?again=1''
      = Inr ''https://samplehack.devpost.com''"
    by code_simp
  have first: "fst (create_lookup ?o (sample_request ''samplehack.devpost.com/'' ''job2'') (sample_state [] []))
     = Inr \<lparr>lookup_id = ''job2'', response_status = ''queued''\<rparr>"
    by (simp add: create_defs sample_defs n1)
  have jobs: "lookup_jobs (db first_submission_started) = [?job]"
    by (simp add: first_submission_started_def create_defs sample_defs n1 set_lookup_started_def
          update_job_def)
  have h1: "enforce_lookup_rate_limit (settings (http_client (scraper ?o))) ?req (db first_submission_started)
      = Inr (db first_submission_started)"
    by (simp add: enforce_lookup_rate_limit_def sample_orchestrator_def sample_scraper_def
          default_settings_def)
  have h2: "normalize_hackathon_url (bracketed_host_ok (scraper ?o)) (raw_hackathon_url ?req)
      = Inr ''https://samplehack.devpost.com''"
    by (simp add: sample_defs n2)
  have h3: "get_latest_active_lookup_for_url ''https://samplehack.devpost.com'' (db first_submission_started)
      = Some ?job"
    by (simp add: get_latest_active_lookup_for_url_def jobs)
  have h4: "queue first_submission_started = Some []"
    by (simp add: first_submission_started_def Let_def)
  from active_job_is_returned [OF h1 h2 h3 h4] first show ?thesis by simp
qed

section \<open>A blocked deep fetch\<close>

lemma blocked_fetch:
  assumes "client_get self u 1 = Response sc b" and "sc = 403 \<or> sc = 429"
    and "1 \<le> retry_count_for self mr"
  shows "fetch_with_retries self u mr bo = ([Get 1], Inl (denied u sc))"
proof -
  have "[1..retry_count_for self mr] = 1 # [2..retry_count_for self mr]"
    using assms(3) by (simp add: upto_rec1)
  then show ?thesis using assms(1,2) by (auto simp: fetch_with_retries_def denied_def)
qed

lemma blocked_scrape:
  assumes "client_get (http_client self) (project_url (fst t)) 1 = Response sc b"
    and "sc = 403 \<or> sc = 429"
    and "1 \<le> project_max_retries (settings (http_client self))"
  shows "scrape_candidate self nm nz t = ([], Inl (denied (project_url (fst t)) sc))"
proof -
  have "1 \<le> retry_count_for (http_client self) (Some (project_max_retries (settings (http_client self))))"
    using assms(3) by (simp add: retry_count_for_def)
  from blocked_fetch [OF assms(1,2) this]
  show ?thesis by (cases t) (simp add: scrape_candidate_def fetch_text_with_options_def)
qed

lemma gallery_loop_rule:
  assumes init: "P st"
    and visit: "\<And>st url. P st \<Longrightarrow> P (st\<lparr>visited_pages := insert url (visited_pages st)\<rparr>)"
    and page: "\<And>st n m cs. P st \<Longrightarrow>
        P (st\<lparr>scanned_pages := n, scanned_projects_total := m, all_candidates := cs\<rparr>)"
    and winner: "\<And>st c. P st \<Longrightarrow> P (schedule_winner c st)"
    and scanned: "\<And>st u n k m nx. P st \<Longrightarrow> P (progress_callback (GalleryPageScanned u n k m nx) st)"
    and drain_ok: "\<And>st st'. P st \<Longrightarrow> drain_completed_scrapes self result False st = (st', None) \<Longrightarrow> P st'"
    and drain_err: "\<And>st st' e. P st \<Longrightarrow> drain_completed_scrapes self result False st = (st', Some e) \<Longrightarrow> Q e"
    and fetch_err: "\<And>url e. snd (fetch_text (http_client self) url) = Inl e \<Longrightarrow> Q e"
  shows "(\<forall>e. snd (gallery_loop self result fuel page st) = LoopRaised e \<longrightarrow> Q e) \<and>
         ((\<forall>e. snd (gallery_loop self result fuel page st) \<noteq> LoopRaised e) \<longrightarrow>
            P (fst (gallery_loop self result fuel page st)))"
  using init drain_ok drain_err fetch_err
proof (induction self result fuel page st rule: gallery_loop.induct)
  case (1 self result page_url st)
  then show ?case by simp
next
  case (2 self result fuel st)
  then show ?case by simp
next
  case (3 self result fuel url st)
  note IH = 3(1) and dok = 3(3) and derr = 3(4) and ferr = 3(5)
  show ?case
  proof (cases "url = [] \<or> url \<in> visited_pages st")
    case True
    then show ?thesis using 3(2) by simp
  next
    case False
    let ?st1 = "st\<lparr>visited_pages := insert url (visited_pages st)\<rparr>"
    have i1: "P ?st1" using 3(2) by (rule visit)
    show ?thesis
    proof (cases "snd (fetch_text (http_client self) url)")
      case (Inl e)
      then show ?thesis using False ferr [OF Inl] by simp
    next
      case (Inr page_html)
      let ?pp = "parse_gallery_page (parser self) url page_html"
      let ?st2 = "?st1\<lparr>scanned_pages := scanned_pages ?st1 + 1,
                            scanned_projects_total :=
                              scanned_projects_total ?st1 + scanned_projects ?pp,
                            all_candidates := all_candidates ?st1 @ all_entries ?pp\<rparr>"
      let ?st3 = "fold schedule_winner (winner_entries ?pp) ?st2"
      let ?st4 = "progress_callback
                          (GalleryPageScanned url (scanned_pages ?st3) (scanned_projects ?pp)
                             (length (winner_entries ?pp)) (next_page_url ?pp))
                          ?st3"
      have i2: "P ?st2" using i1 by (rule page)
      have fw: "P (fold schedule_winner cs s)" if "P s" for cs s
        using that by (induction cs arbitrary: s) (simp_all add: winner)
      have i3: "P ?st3" using i2 by (rule fw)
      have i4: "P ?st4" using i3 by (rule scanned)
      obtain st5 err where d: "(st5, err) = drain_completed_scrapes self result False ?st4"
        by (cases "drain_completed_scrapes self result False ?st4") auto
      show ?thesis
      proof (cases err)
        case None
        have i5: "P st5" using dok [OF i4] d [symmetric] None by simp
        have "(\<forall>e. snd (gallery_loop self result fuel (next_page_url ?pp) st5) = LoopRaised e \<longrightarrow> Q e) \<and>
         ((\<forall>e. snd (gallery_loop self result fuel (next_page_url ?pp) st5) \<noteq> LoopRaised e) \<longrightarrow>
            P (fst (gallery_loop self result fuel (next_page_url ?pp) st5)))"
          by (rule IH [OF False refl Inr refl refl refl refl d None i5 dok derr ferr])
        then show ?thesis
          using False Inr d [symmetric] None by (simp add: Let_def)
      next
        case (Some e)
        have "Q e" using derr [OF i4] d [symmetric] Some by simp
        then show ?thesis
          using False Inr d [symmetric] Some by (simp add: Let_def)
      qed
    qed
  qed
qed


lemma consume_done_none:
  "consume_done result ts st = (st', None) \<Longrightarrow>
     (\<forall>t\<in>set ts. \<not> isl (snd (result t))) \<and> created_tasks st' = created_tasks st \<and>
     set (pending_scrape_tasks st) - set ts \<subseteq> set (pending_scrape_tasks st')"
proof (induction ts arbitrary: st)
  case Nil
  then show ?case by simp
next
  case (Cons t ts)
  let ?st1 = "st\<lparr>pending_scrape_tasks := remove1 t (pending_scrape_tasks st)\<rparr>"
  have "set xs - {t} \<subseteq> set (remove1 t xs)" for xs
    by (induction xs) auto
  then have r: "set (pending_scrape_tasks st) - {t} \<subseteq> set (remove1 t (pending_scrape_tasks st))" .
  show ?case
  proof (cases "snd (result t)")
    case (Inl e)
    then show ?thesis using Cons.prems by simp
  next
    case (Inr v)
    show ?thesis
    proof (cases v)
      case None
      then have "consume_done result ts ?st1 = (st', None)"
        using Cons.prems Inr by simp
      from Cons.IH [OF this] show ?thesis using Inr r by auto
    next
      case (Some sp)
      obtain sid proj where sp: "sp = (sid, proj)" by (cases sp)
      let ?st2 = "?st1\<lparr>events := events ?st1 @ fst (result t), winners := winners ?st1 @ [proj]\<rparr>"
      let ?st3 = "progress_callback
                   (WinnerProjectScraped (length (winners ?st2))
                      (max (total_candidates_scheduled ?st2) (length (winners ?st2)))
                      (p_project_title proj) (p_project_url proj) (length (prizes proj)) proj)
                   ?st2"
      have "consume_done result ts ?st3 = (st', None)"
        using Cons.prems Inr Some sp by (simp add: Let_def)
      from Cons.IH [OF this] show ?thesis
        using Inr r by (auto simp: progress_callback_def)
    qed
  qed
qed

lemma consume_done_some:
  "consume_done result ts st = (st', Some e) \<Longrightarrow> \<exists>t\<in>set ts. snd (result t) = Inl e"
proof (induction ts arbitrary: st)
  case Nil
  then show ?case by simp
next
  case (Cons t ts)
  then show ?case
    by (auto simp: Let_def split: sum.splits option.splits prod.splits)
qed

lemma drain_tasks_ok:
  assumes "tasks_ok result st" and "drain_completed_scrapes self result w st = (st', None)"
  shows "tasks_ok result st'"
proof -
  let ?done = "finished_tasks self st"
  let ?rest = "filter (\<lambda>t. t \<notin> set ?done) (pending_scrape_tasks st)"
  let ?ts = "if w then ?done @ ?rest else ?done"
  have c: "consume_done result ?ts (st\<lparr>drains := drains st + 1\<rparr>) = (st', None)"
    using assms(2) by (simp add: drain_completed_scrapes_def Let_def)
  from consume_done_none [OF c]
  have a: "\<forall>t\<in>set ?ts. \<not> isl (snd (result t))"
    and b: "created_tasks st' = created_tasks st"
    and d: "set (pending_scrape_tasks st) - set ?ts \<subseteq> set (pending_scrape_tasks st')"
    by simp_all
  show ?thesis
    unfolding tasks_ok_def list_all_iff
  proof
    fix t assume "t \<in> set (created_tasks st')"
    then have "t \<in> set (created_tasks st)" using b by simp
    then have "t \<in> set (pending_scrape_tasks st) \<or> \<not> isl (snd (result t))"
      using assms(1) by (simp add: tasks_ok_def list_all_iff)
    then show "t \<in> set (pending_scrape_tasks st') \<or> \<not> isl (snd (result t))"
      using a d by blast
  qed
qed

lemma drain_all_ok:
  assumes "tasks_ok result st" and "drain_completed_scrapes self result True st = (st', None)"
    and "t \<in> set (created_tasks st)"
  shows "\<not> isl (snd (result t))"
proof -
  let ?done = "finished_tasks self st"
  let ?rest = "filter (\<lambda>t. t \<notin> set ?done) (pending_scrape_tasks st)"
  have c: "consume_done result (?done @ ?rest) (st\<lparr>drains := drains st + 1\<rparr>) = (st', None)"
    using assms(2) by (simp add: drain_completed_scrapes_def Let_def)
  from consume_done_none [OF c]
  have a: "\<forall>t\<in>set (?done @ ?rest). \<not> isl (snd (result t))" by simp
  have "t \<in> set (pending_scrape_tasks st) \<or> \<not> isl (snd (result t))"
    using assms(1,3) by (simp add: tasks_ok_def list_all_iff)
  then show ?thesis using a by auto
qed

lemma drain_error_source:
  assumes "drain_completed_scrapes self result w st = (st', Some e)"
  shows "\<exists>t. snd (result t) = Inl e"
proof -
  from assms obtain ts s where "consume_done result ts s = (st', Some e)"
    by (simp add: drain_completed_scrapes_def Let_def)
  from consume_done_some [OF this] show ?thesis by blast
qed

lemma tasks_ok_schedule:
  "tasks_ok result st \<Longrightarrow> tasks_ok result (schedule_candidate c r st)"
  by (auto simp: tasks_ok_def list_all_iff schedule_candidate_def)

lemma tasks_ok_events [simp]:
  "tasks_ok result (progress_callback e st) = tasks_ok result st"
  by (simp add: tasks_ok_def progress_callback_def)

lemma tasks_ok_winner:
  "tasks_ok result st \<Longrightarrow> tasks_ok result (schedule_winner c st)"
  unfolding schedule_winner_def
  by (rule tasks_ok_schedule) (simp add: tasks_ok_def progress_callback_def)

lemma tasks_ok_after:
  assumes "tasks_ok result st"
  shows "tasks_ok result (after_gallery b st)"
proof -
  have f: "tasks_ok result (fold schedule_confirm cs s)" if "tasks_ok result s" for cs s
    using that by (induction cs arbitrary: s) (simp_all add: schedule_confirm_def tasks_ok_schedule)
  show ?thesis using assms by (simp add: after_gallery_def Let_def f)
qed

lemma tasks_ok_initial: "tasks_ok result initial_state"
  by (simp add: tasks_ok_def initial_state_def)


lemma crawl_fails_with:
  assumes run: "scrape_hackathon self fuel url = (st, outcome)"
    and sched: "t \<in> set (created_tasks st)"
    and bad: "\<And>nm nz. isl (snd (scrape_candidate self nm nz t))"
    and pages: "\<And>p e. snd (fetch_text (http_client self) p) = Inl e \<Longrightarrow> Q e"
    and tasks: "\<And>nm nz t' e. snd (scrape_candidate self nm nz t') = Inl e \<Longrightarrow> Q e"
    and nd: "outcome \<noteq> Diverged"
  shows "\<exists>e. outcome = Failed (AppError e) \<and> Q e"
proof (cases "normalize_hackathon_url (bracketed_host_ok self) url")
  case (Inl e)
  then have "st = initial_state" using run by (simp add: scrape_hackathon_def)
  then show ?thesis using sched by (simp add: initial_state_def)
next
  case (Inr nz)
  show ?thesis
  proof (cases "snd (fetch_text (http_client self) nz)")
    case (Inl e)
    then have "st = initial_state" using run Inr by (simp add: scrape_hackathon_def)
    then show ?thesis using sched by (simp add: initial_state_def)
  next
    case html: (Inr html)
    let ?nm = "parse_hackathon_name (parser self) html"
    let ?res = "scrape_candidate self ?nm nz"
    let ?g = "resolve_gallery_url (parser self) nz html"
    let ?b = "winners_are_announced (parser self) html"
    obtain s ex where w: "gallery_loop self ?res fuel (Some ?g) initial_state = (s, ex)"
      by (cases "gallery_loop self ?res fuel (Some ?g) initial_state")
    have fin: "finish_crawl self ?res ?nm nz ?g ?b (s, ex) = (st, outcome)"
      using run Inr html w by (simp add: scrape_hackathon_def Let_def)
    have rule: "(\<forall>e. snd (gallery_loop self ?res fuel (Some ?g) initial_state) = LoopRaised e \<longrightarrow> Q e) \<and>
         ((\<forall>e. snd (gallery_loop self ?res fuel (Some ?g) initial_state) \<noteq> LoopRaised e) \<longrightarrow>
            tasks_ok ?res (fst (gallery_loop self ?res fuel (Some ?g) initial_state)))"
    proof (rule gallery_loop_rule)
      show "tasks_ok ?res initial_state" by (rule tasks_ok_initial)
    next
      fix st url assume "tasks_ok ?res st"
      then show "tasks_ok ?res (st\<lparr>visited_pages := insert url (visited_pages st)\<rparr>)"
        by (simp add: tasks_ok_def)
    next
      fix st n m cs assume "tasks_ok ?res st"
      then show "tasks_ok ?res (st\<lparr>scanned_pages := n, scanned_projects_total := m, all_candidates := cs\<rparr>)"
        by (simp add: tasks_ok_def)
    next
      fix st c assume "tasks_ok ?res st"
      then show "tasks_ok ?res (schedule_winner c st)" by (rule tasks_ok_winner)
    next
      fix st u n k m nx assume "tasks_ok ?res st"
      then show "tasks_ok ?res (progress_callback (GalleryPageScanned u n k m nx) st)" by simp
    next
      fix st st' assume "tasks_ok ?res st" "drain_completed_scrapes self ?res False st = (st', None)"
      then show "tasks_ok ?res st'" by (rule drain_tasks_ok)
    next
      fix st st' e assume "tasks_ok ?res st" "drain_completed_scrapes self ?res False st = (st', Some e)"
      from drain_error_source [OF this(2)] show "Q e" using tasks by blast
    next
      fix url e assume "snd (fetch_text (http_client self) url) = Inl e"
      then show "Q e" by (rule pages)
    qed
    show ?thesis
    proof (cases ex)
      case OutOfFuel
      then show ?thesis using fin nd by (simp add: finish_crawl_def)
    next
      case (LoopRaised e)
      then have "Q e" using rule w by simp
      then show ?thesis using fin LoopRaised by (auto simp: finish_crawl_def)
    next
      case Exited
      then have ok: "tasks_ok ?res (after_gallery ?b s)"
        using rule w by (simp add: tasks_ok_after)
      obtain s' err where d: "drain_completed_scrapes self ?res True (after_gallery ?b s) = (s', err)"
        by (cases "drain_completed_scrapes self ?res True (after_gallery ?b s)")
      show ?thesis
      proof (cases err)
        case (Some e)
        from drain_error_source [OF d [unfolded Some]] have "Q e" using tasks by blast
        then show ?thesis using fin Exited d Some by (auto simp: finish_crawl_def)
      next
        case None
        have "st = cancel_pending s'"
          using fin Exited d None by (auto simp: finish_crawl_def split: if_splits)
        then have "created_tasks st = created_tasks (after_gallery ?b s)"
          using drain_created [of self ?res True "after_gallery ?b s"] d
          by (simp add: cancel_pending_def)
        then have "t \<in> set (created_tasks (after_gallery ?b s))" using sched by simp
        from drain_all_ok [OF ok d [unfolded None] this] show ?thesis using bad by simp
      qed
    qed
  qed
qed

lemma find_update:
  assumes "\<And>row. job_id (f row) = job_id row"
  shows "find (\<lambda>row. job_id row = lid) (map (\<lambda>row. if job_id row = lid then f row else row) rows)
           = map_option f (find (\<lambda>row. job_id row = lid) rows)"
  using assms by (induction rows) auto

lemma get_after_update:
  assumes "\<And>row. job_id (f row) = job_id row"
  shows "get_lookup_job lid (update_job lid f d) = map_option f (get_lookup_job lid d)"
  using find_update [of f lid "lookup_jobs d", OF assms]
  by (simp add: get_lookup_job_def update_job_def)

lemma publish_event_jobs [simp]:
  "lookup_jobs (db (publish_event self now lid ty pl st)) = lookup_jobs (db st)"
  by (simp add: publish_event_def broadcast_def insert_progress_event_def Let_def)

lemma publish_events_jobs [simp]:
  "lookup_jobs (db (fold (\<lambda>e. publish_event self now lid (f e) (g e)) evs st)) = lookup_jobs (db st)"
  by (induction evs arbitrary: st) simp_all

lemma get_lookup_job_cong:
  "lookup_jobs d = lookup_jobs d' \<Longrightarrow> get_lookup_job lid d = get_lookup_job lid d'"
  by (simp add: get_lookup_job_def)

lemma process_lookup_failed:
  assumes job: "get_lookup_job lid (db s0) = Some job"
    and crawl: "run_crawl self (job_hackathon_url job) = (evs, Failed (AppError e))"
  shows "\<exists>row. get_lookup_job lid (db (process_lookup self now lid s0)) = Some row \<and>
           status row = ''failed'' \<and> error_code row = Some (code e) \<and>
           error_message row = Some (message e)"
proof -
  let ?s1 = "publish_event self now lid ''started'' (StartedPayload lid)
               (s0\<lparr>db := set_lookup_started now lid (db s0)\<rparr>)"
  let ?s2 = "fold (\<lambda>e. publish_event self now lid (event_type e) (CrawlPayload e)) evs ?s1"
  have p: "process_lookup self now lid s0 = record_failure self now lid (code e) (message e) ?s2"
    using job crawl by (simp add: process_lookup_def Let_def)
  have j2: "lookup_jobs (db ?s2) = lookup_jobs (set_lookup_started now lid (db s0))"
    by simp
  have "get_lookup_job lid (db ?s2) = get_lookup_job lid (set_lookup_started now lid (db s0))"
    by (rule get_lookup_job_cong [OF j2])
  also have "\<dots> = Some (job\<lparr>status := ''started'', started_at := Some now\<rparr>)"
    using job by (simp add: set_lookup_started_def get_after_update)
  finally have g2: "get_lookup_job lid (db ?s2) = Some (job\<lparr>status := ''started'', started_at := Some now\<rparr>)" .
  have "get_lookup_job lid (db (record_failure self now lid (code e) (message e) ?s2))
          = get_lookup_job lid (set_lookup_failed now lid (code e) (message e) (db ?s2))"
    by (rule get_lookup_job_cong) (simp add: record_failure_def)
  also have "\<dots> = Some (job\<lparr>status := ''failed'', started_at := Some now, finished_at := Some now,
                   error_code := Some (code e), error_message := Some (message e)\<rparr>)"
    using g2 by (simp add: set_lookup_failed_def get_after_update)
  finally show ?thesis using p by simp
qed


text \<open>
  C8: suppose the project page of a candidate answers 403 or 429 on every attempt,
  the deep fetch of that candidate was scheduled, and the gallery walk ends. Then the
  deep fetch issues one request, does not sleep and raises the blocked failure, whose
  code is \<open>blocked_error\<close>; the crawl does not complete but fails with a structured
  error; and the job of a worker that runs this crawl within its deadline is persisted
  as \<open>failed\<close>. If moreover no other page and no other deep fetch fails, the failure
  of the crawl is this blocked failure and the persisted error code of the job is
  \<open>blocked_error\<close>.
\<close>

theorem blocked_deep_fetch_fails_job:
  assumes blocked: "\<forall>k. \<exists>b. client_get (http_client self) u k = Response sc b"
    and denial: "sc = 403 \<or> sc = 429"
    and budget: "1 \<le> project_max_retries (settings (http_client self))"
    and run: "scrape_hackathon self fuel url = (st, outcome)"
    and sched: "u \<in> set (urls_of (created_tasks st))"
    and ends: "outcome \<noteq> Diverged"
    and orch: "scraper orch = self" "crawl_fuel orch = fuel" "deadline_after orch url = None"
    and job: "get_lookup_job lid (db s0) = Some job" "job_hackathon_url job = url"
  shows "fetch_text_with_options (http_client self) u
           (Some (project_max_retries (settings (http_client self))))
           (Some (project_retry_backoff_base_seconds (settings (http_client self))))
         = ([Get 1], Inl (denied u sc)) \<and>
         code (denied u sc) = ''blocked_error'' \<and>
         (\<exists>e. outcome = Failed (AppError e)) \<and>
         map_option status (get_lookup_job lid (db (process_lookup orch now lid s0))) = Some ''failed'' \<and>
         (1 \<le> max_retries (settings (http_client self)) \<and>
          (\<forall>p. p \<noteq> u \<longrightarrow> \<not> isl (snd (fetch_text (http_client self) p))) \<and>
          (\<forall>nm nz t. project_url (fst t) \<noteq> u \<longrightarrow> \<not> isl (snd (scrape_candidate self nm nz t))) \<longrightarrow>
            outcome = Failed (AppError (denied u sc)) \<and>
            map_option error_code (get_lookup_job lid (db (process_lookup orch now lid s0)))
              = Some (Some ''blocked_error''))"
proof -
  obtain b where first: "client_get (http_client self) u 1 = Response sc b"
    using blocked by blast
  have rc: "1 \<le> retry_count_for (http_client self) (Some (project_max_retries (settings (http_client self))))"
    using budget by (simp add: retry_count_for_def)
  have deep: "fetch_text_with_options (http_client self) u
           (Some (project_max_retries (settings (http_client self))))
           (Some (project_retry_backoff_base_seconds (settings (http_client self))))
         = ([Get 1], Inl (denied u sc))"
    using blocked_fetch [OF first denial rc] by (simp add: fetch_text_with_options_def)
  have c: "code (denied u sc) = ''blocked_error''" by (simp add: denied_def)
  obtain t where t: "t \<in> set (created_tasks st)" "project_url (fst t) = u"
    using sched by (auto simp: urls_of_def)
  have task_u: "scrape_candidate self nm nz t' = ([], Inl (denied u sc))"
    if "project_url (fst t') = u" for nm nz t'
    using blocked_scrape [of self t' sc b nm nz] first that denial budget by simp
  have bad: "isl (snd (scrape_candidate self nm nz t))" for nm nz
    using task_u [OF t(2)] by simp
  have "\<exists>e. outcome = Failed (AppError e) \<and> True"
    by (rule crawl_fails_with [OF run t(1) bad _ _ ends]) simp_all
  then obtain e where e: "outcome = Failed (AppError e)" by blast
  have "run_crawl orch (job_hackathon_url job) = (events st, Failed (AppError e))"
    using run e orch job(2) by (simp add: run_crawl_def)
  from process_lookup_failed [OF job(1) this, of now]
  obtain row where row: "get_lookup_job lid (db (process_lookup orch now lid s0)) = Some row"
     "status row = ''failed''" "error_code row = Some (code e)"
    by blast
  have failed: "map_option status (get_lookup_job lid (db (process_lookup orch now lid s0))) = Some ''failed''"
    using row by simp
  have only: "outcome = Failed (AppError (denied u sc)) \<and>
            map_option error_code (get_lookup_job lid (db (process_lookup orch now lid s0)))
              = Some (Some ''blocked_error'')"
    if general: "1 \<le> max_retries (settings (http_client self))"
      and pages: "\<forall>p. p \<noteq> u \<longrightarrow> \<not> isl (snd (fetch_text (http_client self) p))"
      and tasks: "\<forall>nm nz t. project_url (fst t) \<noteq> u \<longrightarrow> \<not> isl (snd (scrape_candidate self nm nz t))"
  proof -
    have "1 \<le> retry_count_for (http_client self) None"
      using general by (simp add: retry_count_for_def)
    from blocked_fetch [OF first denial this]
    have page_u: "snd (fetch_text (http_client self) u) = Inl (denied u sc)"
      by (simp add: fetch_text_def)
    have "\<exists>e. outcome = Failed (AppError e) \<and> e = denied u sc"
    proof (rule crawl_fails_with [OF run t(1) bad _ _ ends])
      fix p e assume a: "snd (fetch_text (http_client self) p) = Inl e"
      have "p = u"
      proof (rule ccontr)
        assume "p \<noteq> u"
        with pages have "\<not> isl (snd (fetch_text (http_client self) p))" by blast
        with a show False by simp
      qed
      then show "e = denied u sc" using a page_u by simp
    next
      fix nm nz t' e assume a: "snd (scrape_candidate self nm nz t') = Inl e"
      have "project_url (fst t') = u"
      proof (rule ccontr)
        assume "project_url (fst t') \<noteq> u"
        with tasks have "\<not> isl (snd (scrape_candidate self nm nz t'))" by blast
        with a show False by simp
      qed
      from task_u [OF this, of nm nz] show "e = denied u sc" using a by simp
    qed
    then have "e = denied u sc" using e by simp
    then show ?thesis using e row c by simp
  qed
  from deep c e failed only show ?thesis by blast
qed

theorem blocked_deep_fetch_fails_job_witness:
  "fetch_text_with_options (http_client (sample_scraper (project_url beta) True True)) (project_url beta)
     (Some (project_max_retries (settings (http_client (sample_scraper (project_url beta) True True)))))
     (Some (project_retry_backoff_base_seconds
              (settings (http_client (sample_scraper (project_url beta) True True)))))
     = ([Get 1], Inl (denied (project_url beta) 429)) \<and>
   snd (scrape_hackathon (sample_scraper (project_url beta) True True) 10 sample_url)
     = Failed (AppError (denied (project_url beta) 429)) \<and>
   map_option status
     (get_lookup_job ''job1''
        (db (process_lookup (sample_orchestrator (project_url beta) True True) 20 ''job1''
               (sample_state [sample_job ''queued''] [''job1'']))))
     = Some ''failed'' \<and>
   map_option error_code
     (get_lookup_job ''job1''
        (db (process_lookup (sample_orchestrator (project_url beta) True True) 20 ''job1''
               (sample_state [sample_job ''queued''] [''job1'']))))
     = Some (Some ''blocked_error'')"
proof -
  let ?self = "sample_scraper (project_url beta) True True"
  let ?orch = "sample_orchestrator (project_url beta) True True"
  let ?s0 = "sample_state [sample_job ''queued''] [''job1'']"
  have blocked: "\<forall>k. \<exists>b. client_get (http_client ?self) (project_url beta) k = Response 429 b"
    by (simp add: sample_scraper_def sample_get_def)
  have budget: "1 \<le> project_max_retries (settings (http_client ?self))"
    and general: "1 \<le> max_retries (settings (http_client ?self))"
    by (simp_all add: sample_scraper_def default_settings_def)
  have sched: "project_url beta \<in> set (urls_of (created_tasks (fst (scrape_hackathon ?self 10 sample_url))))"
    by code_simp
  have ends: "snd (scrape_hackathon ?self 10 sample_url) \<noteq> Diverged"
    by code_simp
  have page: "fetch_text (http_client ?self) p = ([Get 1], Inr p)" if "p \<noteq> project_url beta" for p
    using that by (simp add: sample_scraper_def sample_get_def default_settings_def fetch_defs)
  have deep: "fetch_text_with_options (http_client ?self) p
                (Some (project_max_retries (settings (http_client ?self))))
                (Some (project_retry_backoff_base_seconds (settings (http_client ?self))))
              = ([Get 1], Inr p)"
    if "p \<noteq> project_url beta" for p
    using that by (simp add: sample_scraper_def sample_get_def default_settings_def fetch_defs)
  have pages: "\<forall>p. p \<noteq> project_url beta \<longrightarrow> \<not> isl (snd (fetch_text (http_client ?self) p))"
    using page by simp
  have tasks: "\<forall>nm nz t. project_url (fst t) \<noteq> project_url beta \<longrightarrow>
                 \<not> isl (snd (scrape_candidate ?self nm nz t))"
  proof (intro allI impI)
    fix nm nz and t :: task assume a: "project_url (fst t) \<noteq> project_url beta"
    obtain c r where t: "t = (c, r)" by (cases t)
    have "fetch_text_with_options (http_client ?self) (project_url c)
            (Some (project_max_retries (settings (http_client ?self))))
            (Some (project_retry_backoff_base_seconds (settings (http_client ?self))))
          = ([Get 1], Inr (project_url c))"
      using a t by (intro deep) simp
    moreover have "parser ?self = sample_parser True True" by (simp add: sample_scraper_def)
    ultimately show "\<not> isl (snd (scrape_candidate ?self nm nz t))"
      unfolding t scrape_candidate_def
      by (simp add: sample_parser_def sample_project_def Let_def)
  qed
  have orch: "scraper ?orch = ?self" "crawl_fuel ?orch = 10" "deadline_after ?orch sample_url = None"
    by (simp_all add: sample_orchestrator_def in_time_def)
  have job: "get_lookup_job ''job1'' (db ?s0) = Some (sample_job ''queued'')"
            "job_hackathon_url (sample_job ''queued'') = sample_url"
    by (simp_all add: get_lookup_job_def sample_state_def sample_job_def)
  have sc: "(429::int) = 403 \<or> (429::int) = 429" by simp
  from blocked_deep_fetch_fails_job [OF blocked sc budget prod.collapse [symmetric] sched ends
               orch job, of 20] general pages tasks
  show ?thesis by blast
qed


end
